theory Spec2Isabelle
  imports Complex_Main "HOL-Library.Multiset"
begin

section \<open>Data model of the allocation engine (src/utils/assignment.ts, src/types.ts)\<close>

text \<open>
  A tag of a row is the string \<^verbatim>\<open>'Y'\<close> or the empty string (\<^verbatim>\<open>Record<LabelKey, 'Y' | ''>\<close>).
\<close>

datatype flag = Y | Blank

text \<open>
  A luxon \<^verbatim>\<open>DateTime\<close> is an object of an external library. The engine observes four things
  of it: \<^verbatim>\<open>toMillis()\<close>, \<^verbatim>\<open>hour\<close>, \<^verbatim>\<open>minute\<close> and \<^verbatim>\<open>toFormat('yyyy-MM-dd HH:mm')\<close>.
  The record holds these four observations; nothing is assumed about how they relate.
\<close>

record DateTime =
  toMillis :: int
  hour :: int
  minute :: int
  toFormat_yyyyMMddHHmm :: string

record LabelFlags =
  discharge :: flag
  under_24 :: flag
  over_24 :: flag
  baby_in_scn :: flag
  gyn :: flag
  bfi :: flag
  cs :: flag
  vag :: flag

record RoomAssignmentRow = LabelFlags +
  room :: string
  time :: DateTime
  rank_oldest :: int
  rank_youngest :: int
  nurse_id :: nat

record NurseSummaryRow =
  nurse_id :: nat
  assigned_rooms :: string
  n_rooms :: nat
  oldest_rank_received :: "int option"
  youngest_rank_received :: "int option"
  n_discharge :: nat
  n_under_24 :: nat
  n_over_24 :: nat
  n_baby_in_scn :: nat
  n_gyn :: nat
  n_bfi :: nat
  n_cs :: nat
  n_vag :: nat

record AssignmentResult =
  perNurse :: "NurseSummaryRow list"
  perRoom :: "RoomAssignmentRow list"

record AssignmentInputRow = LabelFlags +
  room :: string
  timeParsed :: DateTime

text \<open>
  \<^verbatim>\<open>workload\<close>, \<^verbatim>\<open>wEffective\<close>, \<^verbatim>\<open>loadSum\<close> and the scores are JavaScript numbers (IEEE
  doubles) in the source. They are modelled as exact reals, so where two scores are equal or
  nearly equal the scored pick of the model can differ from the rounded one of the code. Loads
  and scores are read by the scored selection only; the general theorems below use of that selection only that it returns
  the id of a nurse with remaining capacity, which holds whatever the rounding, and the
  evaluated scenarios state what the round-robin phases decide. Counts, capacities and ranks
  are integers far below \<open>2^53\<close>, where doubles are exact.
\<close>

record DerivedRoom = AssignmentInputRow +
  groupKey :: "string option"
  workload :: real
  randKey :: nat
  wEffective :: real

record NurseCapacity =
  nurseId :: nat
  capacity :: int

record NurseState =
  nurseId :: nat
  remaining :: int
  nAssigned :: int
  loadSum :: real
  assignedGroups :: "string set"
  hasBfi :: bool
  hasCs :: bool

text \<open>
  The two \<^verbatim>\<open>throw new Error(...)\<close> sites of the engine, and the \<^verbatim>\<open>TypeError\<close> that
  reading a property of \<^verbatim>\<open>undefined\<close> raises.
\<close>

datatype error =
  NoFeasibleNurseCandidates
  | NoRoundRobinCapacity
  | TypeError

datatype SortDirection = oldest | newest

definition PEN_BFI_REPEAT :: real where
  "PEN_BFI_REPEAT = 50"

definition PEN_CS_REPEAT :: real where
  "PEN_CS_REPEAT = 75"

section \<open>Library functions of JavaScript used by the engine\<close>

definition startsWith :: "string \<Rightarrow> string \<Rightarrow> bool" where
  "startsWith s p = (take (length p) s = p)"

text \<open>
  \<^verbatim>\<open>String.prototype.localeCompare\<close> is the host's collation. Room ids of the roster are
  made of digits and hyphens, on which the default collation orders as the code units do;
  the model compares code units lexicographically and returns -1, 0 or 1.
\<close>

fun localeCompare :: "string \<Rightarrow> string \<Rightarrow> int" where
  "localeCompare [] [] = 0"
| "localeCompare [] (y # ys) = - 1"
| "localeCompare (x # xs) [] = 1"
| "localeCompare (x # xs) (y # ys) =
     (if (of_char x :: nat) < of_char y then - 1
      else if (of_char y :: nat) < of_char x then 1
      else localeCompare xs ys)"

text \<open>
  \<^verbatim>\<open>Array.prototype.sort(cmp)\<close> is stable: an element moves before another only when the
  comparator is positive for the pair in their current order. \<open>sortBy\<close> is the stable insertion
  sort (the result of every stable sort for a consistent comparator).
\<close>

fun insertBy :: "('a \<Rightarrow> 'a \<Rightarrow> 'c::{zero,ord}) \<Rightarrow> 'a \<Rightarrow> 'a list \<Rightarrow> 'a list" where
  "insertBy cmp x [] = [x]"
| "insertBy cmp x (y # ys) = (if cmp x y \<le> 0 then x # y # ys else y # insertBy cmp x ys)"

definition sortBy :: "('a \<Rightarrow> 'a \<Rightarrow> 'c::{zero,ord}) \<Rightarrow> 'a list \<Rightarrow> 'a list" where
  "sortBy cmp xs = foldr (insertBy cmp) xs []"

text \<open>\<^verbatim>\<open>Array.prototype.findIndex\<close>: the first index whose element satisfies the test, or -1.\<close>

fun findIndex :: "('a \<Rightarrow> bool) \<Rightarrow> 'a list \<Rightarrow> int" where
  "findIndex P [] = - 1"
| "findIndex P (x # xs) =
     (if P x then 0 else (let i = findIndex P xs in if i < 0 then - 1 else i + 1))"

text \<open>\<^verbatim>\<open>Array.prototype.join\<close>.\<close>

fun join :: "string \<Rightarrow> string list \<Rightarrow> string" where
  "join sep [] = []"
| "join sep [x] = x"
| "join sep (x # y # ys) = x @ sep @ join sep (y # ys)"

text \<open>\<^verbatim>\<open>forEach\<close> with a callback that may throw: the first error ends the loop.\<close>

fun forEachE :: "('a \<Rightarrow> 's \<Rightarrow> error + 's) \<Rightarrow> 'a list \<Rightarrow> 's \<Rightarrow> error + 's" where
  "forEachE f [] s = Inr s"
| "forEachE f (x # xs) s = (case f x s of Inl e \<Rightarrow> Inl e | Inr s' \<Rightarrow> forEachE f xs s')"

section \<open>Capacity planning and per-room derived values\<close>

definition computeCapacities :: "nat \<Rightarrow> nat \<Rightarrow> NurseCapacity list" where
  "computeCapacities nRooms nNurses =
     (let base = nRooms div nNurses;
          remainder = nRooms mod nNurses
      in map (\<lambda>idx. \<lparr>NurseCapacity.nurseId = idx + 1,
                      capacity = (if idx < remainder then int base + 1 else int base)\<rparr>)
             [0..<nNurses])"

fun roomGroupKey_prefixes :: "string list \<Rightarrow> string \<Rightarrow> string" where
  "roomGroupKey_prefixes [] roomId = roomId"
| "roomGroupKey_prefixes (prefix # prefixes) roomId =
     (if startsWith roomId (prefix @ ''-'') then prefix
      else roomGroupKey_prefixes prefixes roomId)"

definition roomGroupKey :: "string option \<Rightarrow> string option" where
  "roomGroupKey roomId =
     (case roomId of
        None \<Rightarrow> None
      | Some r \<Rightarrow>
          if r = [] then None
          else Some (roomGroupKey_prefixes [''8'', ''10'', ''14'', ''16'', ''18'', ''20'', ''32''] r))"

definition roomWorkload :: "'a AssignmentInputRow_scheme \<Rightarrow> real" where
  "roomWorkload row =
     (let weight = 1;
          weight = (if discharge row = Y then weight - 0.25 else weight);
          weight = (if baby_in_scn row = Y then weight - 0.25 else weight);
          weight = (if gyn row = Y then weight - 0.15 else weight);
          weight = (if bfi row = Y then weight + 0.4 else weight);
          weight = (if cs row = Y then weight + 0.55 else weight);
          weight = (if vag row = Y then weight + 0.2 else weight)
      in max weight 0.2)"

definition getAgePriority :: "'a LabelFlags_scheme \<Rightarrow> int" where
  "getAgePriority row = (if under_24 row = Y then 0 else if over_24 row = Y then 1 else 2)"

definition compareByAgeThenTime :: "DerivedRoom \<Rightarrow> DerivedRoom \<Rightarrow> SortDirection \<Rightarrow> int" where
  "compareByAgeThenTime a b direction =
     (let ageDiff = getAgePriority a - getAgePriority b in
      if ageDiff \<noteq> 0 then ageDiff
      else
        let timeDiff = toMillis (timeParsed a) - toMillis (timeParsed b) in
        if timeDiff \<noteq> 0 then (if direction = oldest then timeDiff else - timeDiff)
        else localeCompare (room a) (room b))"

definition sortByAgeThenTime :: "DerivedRoom list \<Rightarrow> SortDirection \<Rightarrow> DerivedRoom list" where
  "sortByAgeThenTime data direction = sortBy (\<lambda>a b. compareByAgeThenTime a b direction) data"

text \<open>
  The loop of \<^verbatim>\<open>stablePseudoRandomKey\<close>: \<open>i\<close> runs over the positions of the stamp,
  \<^verbatim>\<open>charCodeAt(i)\<close> is the code of the character (room ids and the formatted time are ASCII).
\<close>

function stablePseudoRandomKey_loop :: "string \<Rightarrow> nat \<Rightarrow> nat \<Rightarrow> nat" where
  "stablePseudoRandomKey_loop stamp i acc =
     (if i < length stamp
      then stablePseudoRandomKey_loop stamp (i + 1)
             (acc + (of_char (stamp ! i) * ((i + 1) mod 97 + 1)) mod 104729)
      else acc)"
  by pat_completeness auto
termination
  by (relation "measure (\<lambda>(stamp, i, acc). length stamp - i)") auto

definition stablePseudoRandomKey :: "string \<Rightarrow> DateTime \<Rightarrow> nat" where
  "stablePseudoRandomKey roomId dt =
     (let stamp = roomId @ ''|'' @ toFormat_yyyyMMddHHmm dt
      in stablePseudoRandomKey_loop stamp 0 0)"

definition makeEffectiveLoad :: "DateTime \<Rightarrow> real \<Rightarrow> real" where
  "makeEffectiveLoad dt w =
     (let minutes = hour dt * 60 + minute dt
      in (1 + real_of_int minutes / (24 * 60)) * w)"

definition buildInitialState :: "NurseCapacity list \<Rightarrow> NurseState list" where
  "buildInitialState capacities =
     map (\<lambda>c. \<lparr>nurseId = NurseCapacity.nurseId c, remaining = capacity c, nAssigned = 0,
               loadSum = 0, assignedGroups = {}, hasBfi = False, hasCs = False\<rparr>) capacities"

section \<open>Nurse selection and state update\<close>

text \<open>
  \<^verbatim>\<open>new Map(capacities.map((cap) => [cap.nurseId, cap.capacity]))\<close>: a later entry for the
  same key replaces an earlier one.
\<close>

definition capacityMapOf :: "NurseCapacity list \<Rightarrow> (nat \<rightharpoonup> int)" where
  "capacityMapOf capacities =
     map_of (rev (map (\<lambda>cap. (NurseCapacity.nurseId cap, capacity cap)) capacities))"

text \<open>The score of one candidate inside \<^verbatim>\<open>pickNurse\<close> (the body of the \<^verbatim>\<open>map\<close> callback).\<close>

definition pickNurse_score ::
  "DerivedRoom \<Rightarrow> NurseState list \<Rightarrow> (nat \<rightharpoonup> int) \<Rightarrow> real \<Rightarrow> real \<Rightarrow> real \<Rightarrow> NurseState
     \<Rightarrow> nat \<times> real" where
  "pickNurse_score aRoom st capacityMap totalCapacity assignedSoFar meanLoadTarget nurse =
     (let projN = real_of_int (nAssigned nurse) + 1;
          projLoad = loadSum nurse + wEffective aRoom;
          nurseCapacity = (case capacityMap (nurseId nurse) of None \<Rightarrow> 0 | Some c \<Rightarrow> c);
          capacityShare =
            (if nurseCapacity > 0 then real_of_int nurseCapacity / totalCapacity
             else 1 / real (length st));
          projTotalAssigned = assignedSoFar + 1;
          projectedTarget = capacityShare * projTotalAssigned;
          baseScore = (projN - projectedTarget)\<^sup>2 + (projLoad - meanLoadTarget)\<^sup>2;
          hasGroup =
            (case groupKey aRoom of
               None \<Rightarrow> False
             | Some k \<Rightarrow> if k = [] then False else k \<in> assignedGroups nurse);
          groupScore = (if hasGroup then baseScore - 1 / 1000 else baseScore);
          repeatPenalty =
            (if bfi aRoom = Y \<and> hasBfi nurse then PEN_BFI_REPEAT else 0) +
            (if cs aRoom = Y \<and> hasCs nurse then PEN_CS_REPEAT else 0)
      in (nurseId nurse, groupScore + repeatPenalty))"

text \<open>The comparator \<^verbatim>\<open>a.score - b.score || a.nurseId - b.nurseId\<close>.\<close>

definition pickNurse_compare :: "nat \<times> real \<Rightarrow> nat \<times> real \<Rightarrow> real" where
  "pickNurse_compare a b =
     (if snd a - snd b \<noteq> 0 then snd a - snd b else real (fst a) - real (fst b))"

definition pickNurse ::
  "DerivedRoom \<Rightarrow> NurseState list \<Rightarrow> NurseCapacity list \<Rightarrow> (nat \<rightharpoonup> int) \<Rightarrow> error + nat" where
  "pickNurse aRoom st capacities capacityMap =
     (let candidates = filter (\<lambda>nurse. remaining nurse > 0) st in
      if candidates = [] then Inl NoFeasibleNurseCandidates
      else
        let totalCapacity = real_of_int (sum_list (map capacity capacities));
            assignedSoFar = real_of_int (sum_list (map nAssigned st));
            totalLoad = sum_list (map loadSum st);
            meanLoadTarget = (totalLoad + wEffective aRoom) / real (length st);
            scored = sortBy pickNurse_compare
                       (map (pickNurse_score aRoom st capacityMap totalCapacity assignedSoFar
                               meanLoadTarget) candidates)
        in (case scored of [] \<Rightarrow> Inl TypeError | best # _ \<Rightarrow> Inr (fst best)))"

text \<open>
  \<^verbatim>\<open>updateNurseState\<close> mutates the first nurse of the array with the given id
  (\<^verbatim>\<open>state.find\<close>) and does nothing when there is none.
\<close>

fun updateNurseState :: "nat \<Rightarrow> DerivedRoom \<Rightarrow> NurseState list \<Rightarrow> NurseState list" where
  "updateNurseState nid aRoom [] = []"
| "updateNurseState nid aRoom (nurse # rest) =
     (if nurseId nurse = nid
      then nurse\<lparr>remaining := max 0 (remaining nurse - 1),
                 nAssigned := nAssigned nurse + 1,
                 loadSum := loadSum nurse + wEffective aRoom,
                 assignedGroups :=
                   (case groupKey aRoom of
                      None \<Rightarrow> assignedGroups nurse
                    | Some k \<Rightarrow> if k = [] then assignedGroups nurse
                                else insert k (assignedGroups nurse)),
                 hasBfi := (if bfi aRoom = Y then True else hasBfi nurse),
                 hasCs := (if cs aRoom = Y then True else hasCs nurse)\<rparr> # rest
      else nurse # updateNurseState nid aRoom rest)"

section \<open>The phases of \<^verbatim>\<open>assignRoomsToState\<close>\<close>

text \<open>
  The mutable data of one run: the nurse array passed in (mutated in place), and the two
  locals of the closure, the assignment map and the rotation pointer.
\<close>

record EngineState =
  state :: "NurseState list"
  assignment :: "string \<rightharpoonup> nat"
  roundRobinIndex :: nat

definition assignWithScoring ::
  "NurseCapacity list \<Rightarrow> (nat \<rightharpoonup> int) \<Rightarrow> DerivedRoom \<Rightarrow> EngineState \<Rightarrow> error + EngineState" where
  "assignWithScoring capacities capacityMap aRoom s =
     (if assignment s (room aRoom) \<noteq> None then Inr s
      else
        case pickNurse aRoom (state s) capacities capacityMap of
          Inl e \<Rightarrow> Inl e
        | Inr chosen \<Rightarrow>
            Inr (s\<lparr>state := updateNurseState chosen aRoom (state s),
                   assignment := (assignment s)(room aRoom \<mapsto> chosen)\<rparr>))"

definition getRoundRobinOrder :: "EngineState \<Rightarrow> NurseState list" where
  "getRoundRobinOrder s =
     map (\<lambda>offset. state s ! ((roundRobinIndex s + offset) mod length (state s)))
         [0..<length (state s)]"

text \<open>The body of the \<^verbatim>\<open>forEach\<close> of \<^verbatim>\<open>assignRoundRobin\<close>, for one room.\<close>

definition assignRoundRobin_room :: "DerivedRoom \<Rightarrow> EngineState \<Rightarrow> error + EngineState" where
  "assignRoundRobin_room aRoom s =
     (let candidates = filter (\<lambda>nurse. remaining nurse > 0) (getRoundRobinOrder s) in
      case candidates of
        [] \<Rightarrow> Inl NoRoundRobinCapacity
      | first # _ \<Rightarrow>
          let avoidDuplicates =
                filter (\<lambda>nurse. \<not> (bfi aRoom = Y \<and> hasBfi nurse) \<and> \<not> (cs aRoom = Y \<and> hasCs nurse))
                  candidates;
              chosen = (case avoidDuplicates of [] \<Rightarrow> first | c # _ \<Rightarrow> c);
              chosenIndex = findIndex (\<lambda>n. nurseId n = nurseId chosen) (state s)
          in Inr \<lparr>state = updateNurseState (nurseId chosen) aRoom (state s),
                  assignment = (assignment s)(room aRoom \<mapsto> nurseId chosen),
                  roundRobinIndex = nat ((chosenIndex + 1) mod int (length (state s)))\<rparr>)"

definition assignRoundRobin ::
  "DerivedRoom list \<Rightarrow> SortDirection \<Rightarrow> EngineState \<Rightarrow> error + EngineState" where
  "assignRoundRobin data direction s =
     (let ordered = filter (\<lambda>r. assignment s (room r) = None) (sortByAgeThenTime data direction)
      in forEachE assignRoundRobin_room ordered s)"

definition assignSequence ::
  "NurseCapacity list \<Rightarrow> (nat \<rightharpoonup> int) \<Rightarrow> DerivedRoom list \<Rightarrow> SortDirection \<Rightarrow> EngineState
     \<Rightarrow> error + EngineState" where
  "assignSequence capacities capacityMap data direction s =
     forEachE (assignWithScoring capacities capacityMap)
       (filter (\<lambda>r. assignment s (room r) = None) (sortByAgeThenTime data direction)) s"

text \<open>
  The four phases in order. \<open>assignRoomsToState_run\<close> gives the whole final state of the run
  (the caller's nurse array has been mutated); \<open>assignRoomsToState\<close> is the returned map.
\<close>

definition assignRoomsToState_run ::
  "DerivedRoom list \<Rightarrow> NurseState list \<Rightarrow> NurseCapacity list \<Rightarrow> error + EngineState" where
  "assignRoomsToState_run rooms st capacities =
     (let capacityMap = capacityMapOf capacities;
          s0 = \<lparr>state = st, assignment = Map.empty, roundRobinIndex = 0\<rparr>;
          dischargeRooms = filter (\<lambda>r. discharge r = Y) rooms;
          youngRooms = filter (\<lambda>r. under_24 r = Y) rooms;
          oldRooms = filter (\<lambda>r. over_24 r = Y) rooms
      in case assignRoundRobin dischargeRooms oldest s0 of
           Inl e \<Rightarrow> Inl e
         | Inr s1 \<Rightarrow>
        (case assignRoundRobin youngRooms oldest s1 of
           Inl e \<Rightarrow> Inl e
         | Inr s2 \<Rightarrow>
        (case assignRoundRobin oldRooms oldest s2 of
           Inl e \<Rightarrow> Inl e
         | Inr s3 \<Rightarrow>
            let remainingRooms = filter (\<lambda>r. assignment s3 (room r) = None) rooms
            in assignSequence capacities capacityMap remainingRooms oldest s3)))"

definition assignRoomsToState ::
  "DerivedRoom list \<Rightarrow> NurseState list \<Rightarrow> NurseCapacity list \<Rightarrow> error + (string \<rightharpoonup> nat)" where
  "assignRoomsToState rooms st capacities =
     (case assignRoomsToState_run rooms st capacities of
        Inl e \<Rightarrow> Inl e
      | Inr s \<Rightarrow> Inr (assignment s))"

section \<open>Ranks and the two result tables\<close>

text \<open>
  \<^verbatim>\<open>formatClock(dt, tz)\<close> of src/utils/time.ts is \<^verbatim>\<open>dt.setZone(tz).toFormat('HH:mm')\<close>, a call
  into luxon; \<open>zoneClock\<close> stands for that library call.
\<close>

definition formatClock :: "(DateTime \<Rightarrow> string \<Rightarrow> string) \<Rightarrow> DateTime \<Rightarrow> string \<Rightarrow> string" where
  "formatClock zoneClock dt tz = zoneClock dt tz"

definition buildRoomLabel ::
  "(DateTime \<Rightarrow> string \<Rightarrow> string) \<Rightarrow> RoomAssignmentRow \<Rightarrow> string \<Rightarrow> string" where
  "buildRoomLabel zoneClock row tz =
     (let parts = [];
          parts = (if over_24 row = Y then parts @ [''over24''] else parts);
          parts = (if under_24 row = Y then parts @ [''under24''] else parts);
          parts = (if cs row = Y then parts @ [''cs''] else parts);
          parts = (if vag row = Y then parts @ [''vag''] else parts);
          parts = (if bfi row = Y then parts @ [''bfi''] else parts);
          parts = (if discharge row = Y then parts @ [''dc''] else parts);
          parts = (if gyn row = Y then parts @ [''gyn''] else parts);
          suffix = (if length parts \<noteq> 0 then '' '' @ join '' '' parts else [])
      in RoomAssignmentRow.room row @ '' ('' @ formatClock zoneClock (time row) tz @ '')'' @ suffix)"

definition denseRankOldest_compare :: "DerivedRoom \<Rightarrow> DerivedRoom \<Rightarrow> int" where
  "denseRankOldest_compare a b =
     (if toMillis (timeParsed a) - toMillis (timeParsed b) \<noteq> 0
      then toMillis (timeParsed a) - toMillis (timeParsed b)
      else localeCompare (room a) (room b))"

text \<open>The \<^verbatim>\<open>for\<close> loop of \<^verbatim>\<open>denseRankOldest\<close> with its three variables.\<close>

fun denseRankOldest_loop ::
  "DerivedRoom list \<Rightarrow> (string \<rightharpoonup> int) \<Rightarrow> int \<Rightarrow> int option \<Rightarrow> (string \<rightharpoonup> int)" where
  "denseRankOldest_loop [] ranks currentRank lastMillis = ranks"
| "denseRankOldest_loop (aRoom # rest) ranks currentRank lastMillis =
     (let millis = toMillis (timeParsed aRoom) in
      if lastMillis = None \<or> lastMillis \<noteq> Some millis
      then denseRankOldest_loop rest (ranks(room aRoom \<mapsto> currentRank + 1))
             (currentRank + 1) (Some millis)
      else denseRankOldest_loop rest (ranks(room aRoom \<mapsto> currentRank))
             currentRank lastMillis)"

definition denseRankOldest :: "DerivedRoom list \<Rightarrow> (string \<rightharpoonup> int)" where
  "denseRankOldest rooms =
     (let ranked = sortBy denseRankOldest_compare rooms
      in denseRankOldest_loop ranked Map.empty 0 None)"

text \<open>\<^verbatim>\<open>Math.min(...xs)\<close> and \<^verbatim>\<open>Math.max(...xs)\<close> of an array known to be non-empty.\<close>

fun Math_min :: "int \<Rightarrow> int list \<Rightarrow> int" where
  "Math_min x [] = x"
| "Math_min x (y # ys) = Math_min (min x y) ys"

fun Math_max :: "int \<Rightarrow> int list \<Rightarrow> int" where
  "Math_max x [] = x"
| "Math_max x (y # ys) = Math_max (max x y) ys"

text \<open>The callback that builds a \<^verbatim>\<open>DerivedRoom\<close> from an input row.\<close>

definition assignRooms_derive :: "AssignmentInputRow \<Rightarrow> DerivedRoom" where
  "assignRooms_derive row =
     (let w = roomWorkload row;
          g = roomGroupKey (Some (room row));
          k = stablePseudoRandomKey (room row) (timeParsed row);
          e = makeEffectiveLoad (timeParsed row) w
      in \<lparr>discharge = discharge row, under_24 = under_24 row, over_24 = over_24 row,
          baby_in_scn = baby_in_scn row, gyn = gyn row, bfi = bfi row, cs = cs row,
          vag = vag row, room = room row, timeParsed = timeParsed row,
          groupKey = g, workload = w, randKey = k, wEffective = e\<rparr>)"

text \<open>
  \<^verbatim>\<open>.filter((room) => assignmentMap.has(room.room)).map(...)\<close> for one room: no row for a room
  the map does not hold, otherwise the per-room row.
\<close>

definition assignRooms_roomRow ::
  "(string \<rightharpoonup> nat) \<Rightarrow> (string \<rightharpoonup> int) \<Rightarrow> int \<Rightarrow> DerivedRoom \<Rightarrow> RoomAssignmentRow option" where
  "assignRooms_roomRow assignmentMap rankOldest totalRooms aRoom =
     (case assignmentMap (room aRoom) of
        None \<Rightarrow> None
      | Some nurse \<Rightarrow>
          let oldestRank = (case rankOldest (room aRoom) of None \<Rightarrow> 1 | Some r \<Rightarrow> r) in
          Some \<lparr>discharge = discharge aRoom, under_24 = under_24 aRoom, over_24 = over_24 aRoom,
                baby_in_scn = baby_in_scn aRoom, gyn = gyn aRoom, bfi = bfi aRoom, cs = cs aRoom,
                vag = vag aRoom,
                RoomAssignmentRow.room = room aRoom,
                time = timeParsed aRoom,
                rank_oldest = oldestRank,
                rank_youngest = totalRooms - oldestRank + 1,
                RoomAssignmentRow.nurse_id = nurse\<rparr>)"

text \<open>The comparator \<^verbatim>\<open>a.nurse_id - b.nurse_id || a.rank_oldest - b.rank_oldest\<close>.\<close>

definition assignRooms_compare :: "RoomAssignmentRow \<Rightarrow> RoomAssignmentRow \<Rightarrow> int" where
  "assignRooms_compare a b =
     (if int (RoomAssignmentRow.nurse_id a) - int (RoomAssignmentRow.nurse_id b) \<noteq> 0
      then int (RoomAssignmentRow.nurse_id a) - int (RoomAssignmentRow.nurse_id b)
      else rank_oldest a - rank_oldest b)"

text \<open>The callback that builds the per-nurse row of index \<open>idx\<close>.\<close>

definition assignRooms_nurseRow ::
  "(DateTime \<Rightarrow> string \<Rightarrow> string) \<Rightarrow> string \<Rightarrow> RoomAssignmentRow list \<Rightarrow> nat \<Rightarrow> NurseSummaryRow" where
  "assignRooms_nurseRow zoneClock tz rows idx =
     (let nid = idx + 1;
          roomsForNurse = filter (\<lambda>r. RoomAssignmentRow.nurse_id r = nid) rows;
          nRooms = length roomsForNurse;
          oldestRank =
            (case map rank_oldest roomsForNurse of [] \<Rightarrow> None | x # xs \<Rightarrow> Some (Math_min x xs));
          youngestRank =
            (case map rank_youngest roomsForNurse of [] \<Rightarrow> None | x # xs \<Rightarrow> Some (Math_max x xs));
          assignedRooms = join '', '' (map (\<lambda>r. buildRoomLabel zoneClock r tz) roomsForNurse)
      in \<lparr>nurse_id = nid,
          assigned_rooms = assignedRooms,
          n_rooms = nRooms,
          oldest_rank_received = oldestRank,
          youngest_rank_received = youngestRank,
          n_discharge = length (filter (\<lambda>r. discharge r = Y) roomsForNurse),
          n_under_24 = length (filter (\<lambda>r. under_24 r = Y) roomsForNurse),
          n_over_24 = length (filter (\<lambda>r. over_24 r = Y) roomsForNurse),
          n_baby_in_scn = length (filter (\<lambda>r. baby_in_scn r = Y) roomsForNurse),
          n_gyn = length (filter (\<lambda>r. gyn r = Y) roomsForNurse),
          n_bfi = length (filter (\<lambda>r. bfi r = Y) roomsForNurse),
          n_cs = length (filter (\<lambda>r. cs r = Y) roomsForNurse),
          n_vag = length (filter (\<lambda>r. vag r = Y) roomsForNurse)\<rparr>)"

definition assignRooms ::
  "(DateTime \<Rightarrow> string \<Rightarrow> string) \<Rightarrow> AssignmentInputRow list \<Rightarrow> nat \<Rightarrow> string
     \<Rightarrow> error + AssignmentResult" where
  "assignRooms zoneClock rows nNurses tz =
     (if length rows = 0 then Inr \<lparr>perNurse = [], perRoom = []\<rparr>
      else
        let capacities = computeCapacities (length rows) nNurses;
            derived = map assignRooms_derive rows
        in case assignRoomsToState derived (buildInitialState capacities) capacities of
             Inl e \<Rightarrow> Inl e
           | Inr assignmentMap \<Rightarrow>
               let rankOldest = denseRankOldest derived;
                   totalRooms = int (length derived);
                   rows' = sortBy assignRooms_compare
                             (List.map_filter
                                (assignRooms_roomRow assignmentMap rankOldest totalRooms) derived)
               in Inr \<lparr>perNurse = map (assignRooms_nurseRow zoneClock tz rows') [0..<nNurses],
                       perRoom = rows'\<rparr>)"

section \<open>Invariant of a run\<close>

text \<open>
  The books of a run over rooms with ids \<open>ids\<close> and nurses with ids \<open>nids\<close>: the nurse ids
  stay as they are and are distinct, no remaining capacity is negative, only input rooms are
  assigned, the remaining capacities and the assigned rooms add up to the number of rooms, and
  rooms are assigned to nurses of the run.
\<close>

definition engineInv :: "nat list \<Rightarrow> string list \<Rightarrow> EngineState \<Rightarrow> bool" where
  "engineInv nids ids s \<longleftrightarrow>
     map nurseId (state s) = nids \<and> distinct nids \<and>
     (\<forall>n \<in> set (state s). 0 \<le> remaining n) \<and>
     dom (assignment s) \<subseteq> set ids \<and>
     sum_list (map remaining (state s)) + int (card (dom (assignment s))) = int (length ids) \<and>
     ran (assignment s) \<subseteq> set nids"

section \<open>States of a run\<close>

text \<open>
  The states of a run over the planned capacities \<open>caps\<close>: the initial state, and every state
  that one round-robin assignment or one scored assignment produces from a state of the run.
\<close>

inductive reachable :: "NurseCapacity list \<Rightarrow> EngineState \<Rightarrow> bool" for caps where
  start: "reachable caps \<lparr>state = buildInitialState caps, assignment = Map.empty,
                          roundRobinIndex = 0\<rparr>"
| roundRobin: "reachable caps s \<Longrightarrow> assignRoundRobin_room aRoom s = Inr s' \<Longrightarrow> reachable caps s'"
| scored: "reachable caps s \<Longrightarrow>
           assignWithScoring caps (capacityMapOf caps) aRoom s = Inr s' \<Longrightarrow> reachable caps s'"

text \<open>The per-nurse equation between the planned capacity and the state of the nurse.\<close>

definition booksBalanced :: "NurseCapacity list \<Rightarrow> NurseState list \<Rightarrow> bool" where
  "booksBalanced caps st \<longleftrightarrow>
     length st = length caps \<and>
     (\<forall>i < length caps.
        nurseId (st ! i) = NurseCapacity.nurseId (caps ! i) \<and>
        remaining (st ! i) + nAssigned (st ! i) = capacity (caps ! i) \<and>
        0 \<le> remaining (st ! i) \<and>
        nAssigned (st ! i) \<le> capacity (caps ! i))"

section \<open>The hash key as the specification words it\<close>


section \<open>Run states and the rooms a nurse holds\<close>

text \<open>
  The states of a run over the rooms \<open>rooms\<close>: as \<open>reachable\<close>, with every assignment made for a
  room of the list, and every round-robin assignment for a room that is not yet assigned (the
  phase filters the assigned rooms out; the scored step skips them itself).
\<close>

inductive runState :: "DerivedRoom list \<Rightarrow> NurseCapacity list \<Rightarrow> EngineState \<Rightarrow> bool"
  for rooms caps where
  start: "runState rooms caps \<lparr>state = buildInitialState caps, assignment = Map.empty,
                               roundRobinIndex = 0\<rparr>"
| roundRobin: "runState rooms caps s \<Longrightarrow> aRoom \<in> set rooms \<Longrightarrow>
               assignment s (room aRoom) = None \<Longrightarrow>
               assignRoundRobin_room aRoom s = Inr s' \<Longrightarrow> runState rooms caps s'"
| scored: "runState rooms caps s \<Longrightarrow> aRoom \<in> set rooms \<Longrightarrow>
           assignWithScoring caps (capacityMapOf caps) aRoom s = Inr s' \<Longrightarrow>
           runState rooms caps s'"

text \<open>
  The rooms a nurse holds are the rooms that the assignment map gives to its id. A nurse
  would duplicate a tag of a room when the room is \<^verbatim>\<open>bfi\<close> and the nurse holds a \<^verbatim>\<open>bfi\<close> room,
  or the room is \<^verbatim>\<open>cs\<close> and the nurse holds a \<^verbatim>\<open>cs\<close> room.
\<close>

definition holdsBfi :: "DerivedRoom list \<Rightarrow> EngineState \<Rightarrow> NurseState \<Rightarrow> bool" where
  "holdsBfi rooms s nurse \<longleftrightarrow>
     (\<exists>r \<in> set rooms. bfi r = Y \<and> assignment s (room r) = Some (nurseId nurse))"

definition holdsCs :: "DerivedRoom list \<Rightarrow> EngineState \<Rightarrow> NurseState \<Rightarrow> bool" where
  "holdsCs rooms s nurse \<longleftrightarrow>
     (\<exists>r \<in> set rooms. cs r = Y \<and> assignment s (room r) = Some (nurseId nurse))"

definition wouldDuplicate ::
  "DerivedRoom list \<Rightarrow> EngineState \<Rightarrow> DerivedRoom \<Rightarrow> NurseState \<Rightarrow> bool" where
  "wouldDuplicate rooms s aRoom nurse \<longleftrightarrow>
     bfi aRoom = Y \<and> holdsBfi rooms s nurse \<or> cs aRoom = Y \<and> holdsCs rooms s nurse"

section \<open>Sample inputs\<close>

text \<open>
  Rows as the test file builds them (\<^verbatim>\<open>makeRow\<close> of assignment.test.ts): a room at
  \<open>h:m\<close> on 2025-01-01 in America/Toronto (UTC-5), with the tags of \<open>flags\<close>.
\<close>

definition pad2 :: "int \<Rightarrow> string" where
  "pad2 n = [''0123456789'' ! nat (n div 10), ''0123456789'' ! nat (n mod 10)]"

definition noFlags :: LabelFlags where
  "noFlags = \<lparr>discharge = Blank, under_24 = Blank, over_24 = Blank, baby_in_scn = Blank,
              gyn = Blank, bfi = Blank, cs = Blank, vag = Blank\<rparr>"

definition makeRow :: "string \<Rightarrow> int \<Rightarrow> int \<Rightarrow> LabelFlags \<Rightarrow> AssignmentInputRow" where
  "makeRow roomId h m flags =
     \<lparr>discharge = discharge flags, under_24 = under_24 flags, over_24 = over_24 flags,
      baby_in_scn = baby_in_scn flags, gyn = gyn flags, bfi = bfi flags, cs = cs flags,
      vag = vag flags,
      room = roomId,
      timeParsed = \<lparr>toMillis = 1735707600000 + (h * 60 + m) * 60000, hour = h, minute = m,
                    toFormat_yyyyMMddHHmm = ''2025-01-01 '' @ pad2 h @ '':'' @ pad2 m\<rparr>\<rparr>"

text \<open>What the luxon call of \<open>formatClock\<close> yields when \<open>tz\<close> is the zone the time was built in.\<close>

definition ownZoneClock :: "DateTime \<Rightarrow> string \<Rightarrow> string" where
  "ownZoneClock dt tz = pad2 (hour dt) @ '':'' @ pad2 (minute dt)"

definition TZ :: string where
  "TZ = ''America/Toronto''"

text \<open>The rows of the three tests of assignment.test.ts.\<close>

definition rows_discharges :: "AssignmentInputRow list" where
  "rows_discharges =
     [makeRow ''1'' 8 0 (noFlags\<lparr>discharge := Y\<rparr>),
      makeRow ''3'' 8 30 (noFlags\<lparr>discharge := Y\<rparr>),
      makeRow ''5'' 9 0 (noFlags\<lparr>discharge := Y\<rparr>),
      makeRow ''7'' 9 30 (noFlags\<lparr>discharge := Y\<rparr>),
      makeRow ''9'' 10 0 (noFlags\<lparr>discharge := Y\<rparr>),
      makeRow ''11'' 10 30 (noFlags\<lparr>discharge := Y\<rparr>),
      makeRow ''14-1'' 11 0 noFlags,
      makeRow ''14-2'' 11 30 noFlags]"

definition rows_bfi_cs :: "AssignmentInputRow list" where
  "rows_bfi_cs =
     [makeRow ''19'' 6 0 (noFlags\<lparr>over_24 := Y, bfi := Y\<rparr>),
      makeRow ''21'' 7 0 (noFlags\<lparr>over_24 := Y, bfi := Y\<rparr>),
      makeRow ''23'' 8 0 (noFlags\<lparr>over_24 := Y, bfi := Y\<rparr>),
      makeRow ''25'' 9 0 (noFlags\<lparr>over_24 := Y, cs := Y\<rparr>),
      makeRow ''27'' 10 0 (noFlags\<lparr>over_24 := Y, cs := Y\<rparr>),
      makeRow ''32-1'' 11 0 (noFlags\<lparr>over_24 := Y, cs := Y\<rparr>)]"

definition rows_deterministic :: "AssignmentInputRow list" where
  "rows_deterministic =
     [makeRow ''1'' 4 0 (noFlags\<lparr>discharge := Y\<rparr>),
      makeRow ''3'' 5 0 (noFlags\<lparr>over_24 := Y\<rparr>),
      makeRow ''5'' 6 0 (noFlags\<lparr>under_24 := Y, vag := Y\<rparr>),
      makeRow ''7'' 7 0 noFlags]"

text \<open>A nurse whose capacity is used up.\<close>

definition spentNurse :: NurseState where
  "spentNurse = \<lparr>nurseId = 1, remaining = 0, nAssigned = 1, loadSum = 1, assignedGroups = {''1''},
                 hasBfi = False, hasCs = False\<rparr>"

text \<open>The state after the first round-robin assignment of a run with 3 rooms and 2 nurses.\<close>

definition firstStep :: EngineState where
  "firstStep =
     \<lparr>state = [\<lparr>nurseId = 1, remaining = 1, nAssigned = 1, loadSum = 4 / 3,
                assignedGroups = {''3''}, hasBfi = False, hasCs = False\<rparr>,
               \<lparr>nurseId = 2, remaining = 1, nAssigned = 0, loadSum = 0,
                assignedGroups = {}, hasBfi = False, hasCs = False\<rparr>],
      assignment = [''3'' \<mapsto> 1], roundRobinIndex = 1\<rparr>"

text \<open>
  Three discharge rooms, two of them tagged \<^verbatim>\<open>bfi\<close>, for two nurses: the second nurse is full
  when the second \<^verbatim>\<open>bfi\<close> room is assigned.
\<close>

definition rows_tight :: "AssignmentInputRow list" where
  "rows_tight =
     [makeRow ''1'' 8 0 (noFlags\<lparr>discharge := Y, bfi := Y\<rparr>),
      makeRow ''3'' 9 0 (noFlags\<lparr>discharge := Y\<rparr>),
      makeRow ''5'' 10 0 (noFlags\<lparr>discharge := Y, bfi := Y\<rparr>)]"

text \<open>
  Four discharge rooms, the first and the third tagged \<^verbatim>\<open>bfi\<close>, for two nurses, and the states
  of the run after the first and after the second assignment.
\<close>

definition rows_four :: "AssignmentInputRow list" where
  "rows_four =
     [makeRow ''1'' 8 0 (noFlags\<lparr>discharge := Y, bfi := Y\<rparr>),
      makeRow ''3'' 9 0 (noFlags\<lparr>discharge := Y\<rparr>),
      makeRow ''5'' 10 0 (noFlags\<lparr>discharge := Y, bfi := Y\<rparr>),
      makeRow ''7'' 11 0 (noFlags\<lparr>discharge := Y\<rparr>)]"

definition oneAssigned :: EngineState where
  "oneAssigned =
     \<lparr>state = [\<lparr>nurseId = 1, remaining = 1, nAssigned = 1, loadSum = 23 / 15,
                assignedGroups = {''1''}, hasBfi = True, hasCs = False\<rparr>,
               \<lparr>nurseId = 2, remaining = 2, nAssigned = 0, loadSum = 0,
                assignedGroups = {}, hasBfi = False, hasCs = False\<rparr>],
      assignment = [''1'' \<mapsto> 1], roundRobinIndex = 1\<rparr>"

definition twoAssigned :: EngineState where
  "twoAssigned =
     \<lparr>state = [\<lparr>nurseId = 1, remaining = 1, nAssigned = 1, loadSum = 23 / 15,
                assignedGroups = {''1''}, hasBfi = True, hasCs = False\<rparr>,
               \<lparr>nurseId = 2, remaining = 1, nAssigned = 1, loadSum = 33 / 32,
                assignedGroups = {''3''}, hasBfi = False, hasCs = False\<rparr>],
      assignment = [''1'' \<mapsto> 1, ''3'' \<mapsto> 2], roundRobinIndex = 0\<rparr>"

text \<open>Two rooms with the same time stamp.\<close>

definition rows_same_time :: "AssignmentInputRow list" where
  "rows_same_time = [makeRow ''1'' 8 0 noFlags, makeRow ''3'' 8 0 noFlags]"

section \<open>Properties of the capacity planner\<close>

lemma computeCapacities_length: "length (computeCapacities R N) = N"
  by (simp add: computeCapacities_def Let_def)

lemma computeCapacities_nth:
  "idx < N \<Longrightarrow> computeCapacities R N ! idx =
     \<lparr>NurseCapacity.nurseId = idx + 1,
      capacity = (if idx + 1 \<le> R mod N then int (R div N) + 1 else int (R div N))\<rparr>"
  by (simp add: computeCapacities_def Let_def)

lemma sum_list_if_less:
  "r \<le> n \<Longrightarrow> sum_list (map (\<lambda>idx. if idx < r then b + 1 else (b::int)) [0..<n]) = int n * b + int r"
proof (induction n)
  case 0
  then show ?case by simp
next
  case (Suc n)
  show ?case
  proof (cases "r \<le> n")
    case True
    then show ?thesis using Suc.IH by (simp add: algebra_simps)
  next
    case False
    with Suc.prems have r: "r = Suc n" by simp
    have "sum_list (map (\<lambda>idx. if idx < r then b + 1 else b) [0..<n]) = sum_list (map (\<lambda>idx. b + 1) [0..<n])"
      by (rule arg_cong[where f=sum_list]) (simp add: r)
    also have "\<dots> = int n * (b + 1)" by (simp add: sum_list_triv)
    finally show ?thesis by (simp add: r algebra_simps)
  qed
qed

lemma computeCapacities_sum:
  assumes "1 \<le> N" shows "sum_list (map capacity (computeCapacities R N)) = int R"
proof -
  have r: "R mod N \<le> N" using assms by (simp add: less_imp_le)
  have "sum_list (map capacity (computeCapacities R N)) =
        sum_list (map (\<lambda>idx. if idx < R mod N then int (R div N) + 1 else int (R div N)) [0..<N])"
    by (simp add: computeCapacities_def Let_def comp_def)
  also have "\<dots> = int N * int (R div N) + int (R mod N)"
    by (rule sum_list_if_less[OF r])
  also have "\<dots> = int (N * (R div N) + R mod N)"
    by (simp only: of_nat_add of_nat_mult)
  also have "\<dots> = int R" by (simp only: mult_div_mod_eq)
  finally show ?thesis .
qed

lemma computeCapacities_values:
  "c \<in> set (computeCapacities R N) \<Longrightarrow> capacity c = int (R div N) \<or> capacity c = int (R div N) + 1"
  by (auto simp: computeCapacities_def Let_def)

text \<open>
  C2: for every room count \<open>R\<close> and nurse count \<open>N \<ge> 1\<close>, \<open>computeCapacities\<close> returns exactly
  \<open>N\<close> capacities; the nurse with id \<open>idx + 1\<close> receives \<open>R div N + 1\<close> when its id is at
  most \<open>R mod N\<close> and \<open>R div N\<close> otherwise; the capacities sum to \<open>R\<close>, each is
  \<open>R div N\<close> or \<open>R div N + 1\<close>, any two differ by at most 1, and 7 rooms for 3 nurses
  give 3, 2, 2.
\<close>

theorem computeCapacities_correct:
  "1 \<le> N \<Longrightarrow>
     length (computeCapacities R N) = N \<and>
     (\<forall>idx<N. computeCapacities R N ! idx =
        \<lparr>NurseCapacity.nurseId = idx + 1,
         capacity = (if idx + 1 \<le> R mod N then int (R div N) + 1 else int (R div N))\<rparr>) \<and>
     sum_list (map capacity (computeCapacities R N)) = int R \<and>
     (\<forall>c \<in> set (computeCapacities R N).
        capacity c = int (R div N) \<or> capacity c = int (R div N) + 1) \<and>
     (\<forall>c \<in> set (computeCapacities R N). \<forall>d \<in> set (computeCapacities R N).
        capacity c - capacity d \<le> 1) \<and>
     map capacity (computeCapacities 7 3) = [3, 2, 2]"
proof (intro conjI)
  assume N: "1 \<le> N"
  show "length (computeCapacities R N) = N" by (rule computeCapacities_length)
  show "\<forall>idx<N. computeCapacities R N ! idx =
        \<lparr>NurseCapacity.nurseId = idx + 1,
         capacity = (if idx + 1 \<le> R mod N then int (R div N) + 1 else int (R div N))\<rparr>"
    using computeCapacities_nth by blast
  show "sum_list (map capacity (computeCapacities R N)) = int R"
    by (rule computeCapacities_sum[OF N])
  show "\<forall>c \<in> set (computeCapacities R N).
        capacity c = int (R div N) \<or> capacity c = int (R div N) + 1"
    using computeCapacities_values by blast
  show "\<forall>c \<in> set (computeCapacities R N). \<forall>d \<in> set (computeCapacities R N).
        capacity c - capacity d \<le> 1"
  proof (intro ballI)
    fix c d
    assume "c \<in> set (computeCapacities R N)" "d \<in> set (computeCapacities R N)"
    then show "capacity c - capacity d \<le> 1"
      using computeCapacities_values[of c R N] computeCapacities_values[of d R N] by auto
  qed
  show "map capacity (computeCapacities 7 3) = [3, 2, 2]"
    by (simp add: computeCapacities_def Let_def upt_rec)
qed

text \<open>
  The planner at 7 rooms and 3 nurses.
\<close>

theorem computeCapacities_correct_witness:
  "(1::nat) \<le> 3 \<and> length (computeCapacities 7 3) = 3 \<and>
   sum_list (map capacity (computeCapacities 7 3)) = 7 \<and>
   computeCapacities 7 3 ! 0 = \<lparr>NurseCapacity.nurseId = 1, capacity = 3\<rparr> \<and>
   computeCapacities 7 3 ! 2 = \<lparr>NurseCapacity.nurseId = 3, capacity = 2\<rparr>"
  using computeCapacities_correct[of 3 7] by simp

section \<open>Sorting, rotation and lookup\<close>

lemma mset_insertBy: "mset (insertBy cmp x xs) = add_mset x (mset xs)"
  by (induction xs) auto

lemma mset_sortBy: "mset (sortBy cmp xs) = mset xs"
  unfolding sortBy_def by (induction xs) (auto simp: mset_insertBy)

lemma set_sortBy: "set (sortBy cmp xs) = set xs"
  using mset_sortBy[of cmp xs] by (metis set_mset_mset)

lemma length_sortBy: "length (sortBy cmp xs) = length xs"
  using mset_sortBy[of cmp xs] by (metis size_mset)

lemma sortBy_Nil_iff: "sortBy cmp xs = [] \<longleftrightarrow> xs = []"
  using length_sortBy[of cmp xs] by (metis length_0_conv)

lemma mset_map_sortBy: "mset (map f (sortBy cmp xs)) = mset (map f xs)"
  by (metis mset_map mset_sortBy)

lemma distinct_map_sortBy: "distinct (map f (sortBy cmp xs)) = distinct (map f xs)"
  using mset_map_sortBy[of f cmp xs] by (metis mset_eq_imp_distinct_iff)

lemma getRoundRobinOrder_rotate:
  "getRoundRobinOrder s = rotate (roundRobinIndex s) (state s)"
  by (rule nth_equalityI) (simp_all add: getRoundRobinOrder_def nth_rotate)

lemma set_getRoundRobinOrder: "set (getRoundRobinOrder s) = set (state s)"
  by (simp add: getRoundRobinOrder_rotate)

section \<open>The state update\<close>

lemma updateNurseState_ids:
  "map nurseId (updateNurseState nid r st) = map nurseId st"
  by (induction st) auto

lemma updateNurseState_length: "length (updateNurseState nid r st) = length st"
  by (induction st) auto

lemma updateNurseState_remaining_nonneg:
  "\<forall>n \<in> set st. 0 \<le> remaining n \<Longrightarrow> \<forall>n \<in> set (updateNurseState nid r st). 0 \<le> remaining n"
  by (induction st) auto

lemma updateNurseState_sum_remaining:
  "c \<in> set st \<Longrightarrow> 0 < remaining c \<Longrightarrow> distinct (map nurseId st) \<Longrightarrow>
     sum_list (map remaining (updateNurseState (nurseId c) r st)) =
       sum_list (map remaining st) - 1"
proof (induction st)
  case Nil
  then show ?case by simp
next
  case (Cons n st)
  show ?case
  proof (cases "nurseId n = nurseId c")
    case True
    with Cons.prems have "n = c" by (auto simp: image_iff)
    with True Cons.prems show ?thesis by simp
  next
    case False
    with Cons show ?thesis by auto
  qed
qed

section \<open>The two selection steps choose a nurse with remaining capacity\<close>

lemma pickNurse_Inr:
  "pickNurse r st caps cm = Inr nid \<Longrightarrow> \<exists>c \<in> set st. 0 < remaining c \<and> nurseId c = nid"
proof -
  assume a: "pickNurse r st caps cm = Inr nid"
  let ?cands = "filter (\<lambda>nurse. remaining nurse > 0) st"
  let ?f = "pickNurse_score r st cm (real_of_int (sum_list (map capacity caps)))
              (real_of_int (sum_list (map nAssigned st)))
              ((sum_list (map loadSum st) + wEffective r) / real (length st))"
  let ?scored = "sortBy pickNurse_compare (map ?f ?cands)"
  from a obtain best rest where sc: "?scored = best # rest" and nid: "nid = fst best"
    by (auto simp: pickNurse_def Let_def split: if_splits list.splits)
  have "best \<in> set ?scored" using sc by simp
  then have "best \<in> set (map ?f ?cands)" by (simp add: set_sortBy)
  then obtain c where c: "c \<in> set ?cands" and b: "best = ?f c" by auto
  have "fst (?f c) = nurseId c" by (simp add: pickNurse_score_def Let_def)
  with c b nid show ?thesis by auto
qed

lemma pickNurse_Inl_iff:
  "(\<exists>e. pickNurse r st caps cm = Inl e) \<longleftrightarrow> (\<forall>n \<in> set st. \<not> 0 < remaining n)"
  by (auto simp: pickNurse_def Let_def filter_empty_conv sortBy_Nil_iff split: list.splits)

lemma pickNurse_Inl_error:
  "pickNurse r st caps cm = Inl e \<Longrightarrow> e = NoFeasibleNurseCandidates"
  by (auto simp: pickNurse_def Let_def sortBy_Nil_iff split: if_splits list.splits)

lemma assignRoundRobin_room_Inl_iff:
  "(\<exists>e. assignRoundRobin_room r s = Inl e) \<longleftrightarrow> (\<forall>n \<in> set (state s). \<not> 0 < remaining n)"
proof -
  have "(filter (\<lambda>nurse. remaining nurse > 0) (getRoundRobinOrder s) = []) \<longleftrightarrow>
        (\<forall>n \<in> set (state s). \<not> 0 < remaining n)"
    by (simp add: filter_empty_conv set_getRoundRobinOrder)
  then show ?thesis
    by (auto simp: assignRoundRobin_room_def Let_def split: list.splits)
qed

lemma assignRoundRobin_room_Inl_error:
  "assignRoundRobin_room r s = Inl e \<Longrightarrow> e = NoRoundRobinCapacity"
  by (auto simp: assignRoundRobin_room_def Let_def split: list.splits)

text \<open>The nurse chosen by the round-robin step.\<close>

lemma assignRoundRobin_room_Inr:
  assumes "assignRoundRobin_room r s = Inr s'"
  shows "\<exists>c \<in> set (state s). 0 < remaining c \<and>
           state s' = updateNurseState (nurseId c) r (state s) \<and>
           assignment s' = (assignment s)(room r \<mapsto> nurseId c)"
proof -
  let ?cands = "filter (\<lambda>nurse. remaining nurse > 0) (getRoundRobinOrder s)"
  let ?avoid = "filter (\<lambda>nurse. \<not> (bfi r = Y \<and> hasBfi nurse) \<and> \<not> (cs r = Y \<and> hasCs nurse)) ?cands"
  from assms obtain first rest where cs: "?cands = first # rest"
    by (auto simp: assignRoundRobin_room_def Let_def split: list.splits)
  define chosen where "chosen = (case ?avoid of [] \<Rightarrow> first | c # _ \<Rightarrow> c)"
  have "chosen \<in> set ?cands"
  proof (cases ?avoid)
    case Nil
    then show ?thesis using cs by (simp add: chosen_def)
  next
    case (Cons c cs')
    then have "c \<in> set ?avoid" by simp
    then have "c \<in> set ?cands" by simp
    then show ?thesis using Cons by (simp add: chosen_def)
  qed
  then have 1: "chosen \<in> set (state s)" "0 < remaining chosen"
    by (auto simp: set_getRoundRobinOrder)
  from assms cs have "state s' = updateNurseState (nurseId chosen) r (state s)"
    "assignment s' = (assignment s)(room r \<mapsto> nurseId chosen)"
    by (auto simp: assignRoundRobin_room_def Let_def chosen_def)
  with 1 show ?thesis by blast
qed

lemma assignWithScoring_Inr:
  assumes "assignWithScoring caps cm r s = Inr s'" "assignment s (room r) = None"
  shows "\<exists>c \<in> set (state s). 0 < remaining c \<and>
           state s' = updateNurseState (nurseId c) r (state s) \<and>
           assignment s' = (assignment s)(room r \<mapsto> nurseId c) \<and>
           roundRobinIndex s' = roundRobinIndex s"
proof -
  from assms obtain nid where p: "pickNurse r (state s) caps cm = Inr nid"
    and s': "s' = s\<lparr>state := updateNurseState nid r (state s),
                   assignment := (assignment s)(room r \<mapsto> nid)\<rparr>"
    by (auto simp: assignWithScoring_def split: sum.splits)
  from pickNurse_Inr[OF p] obtain c where "c \<in> set (state s)" "0 < remaining c" "nurseId c = nid"
    by blast
  with s' show ?thesis by auto
qed

section \<open>One assignment keeps the books\<close>

lemma sum_list_nonpos:
  "\<forall>n \<in> set st. \<not> 0 < remaining n \<Longrightarrow> sum_list (map remaining st) \<le> 0"
  by (induction st) auto

lemma engineInv_has_capacity:
  assumes inv: "engineInv nids ids s" and d: "distinct ids"
    and r: "rid \<in> set ids" and un: "assignment s rid = None"
  shows "\<exists>n \<in> set (state s). 0 < remaining n"
proof (rule ccontr)
  assume "\<not> (\<exists>n \<in> set (state s). 0 < remaining n)"
  then have le: "sum_list (map remaining (state s)) \<le> 0" using sum_list_nonpos by blast
  have "dom (assignment s) \<subseteq> set ids - {rid}" using inv un by (auto simp: engineInv_def)
  then have "card (dom (assignment s)) \<le> card (set ids - {rid})"
    by (intro card_mono) auto
  also have "\<dots> < card (set ids)" using r by (intro psubset_card_mono) auto
  also have "\<dots> = length ids" using d by (simp add: distinct_card)
  finally have "int (card (dom (assignment s))) < int (length ids)" by simp
  with le inv show False by (simp add: engineInv_def)
qed

lemma engineInv_update:
  assumes inv: "engineInv nids ids s" and r: "rid \<in> set ids" and un: "assignment s rid = None"
    and c: "c \<in> set (state s)" "0 < remaining c"
    and st: "state s' = updateNurseState (nurseId c) aRoom (state s)"
    and asg: "assignment s' = (assignment s)(rid \<mapsto> nurseId c)"
  shows "engineInv nids ids s'"
proof -
  have fin: "finite (dom (assignment s))"
    using inv by (auto simp: engineInv_def intro: finite_subset)
  have nd: "rid \<notin> dom (assignment s)" using un by auto
  have card: "card (dom (assignment s')) = card (dom (assignment s)) + 1"
    using fin nd by (simp add: asg)
  have sum: "sum_list (map remaining (state s')) = sum_list (map remaining (state s)) - 1"
    using inv c by (simp add: st updateNurseState_sum_remaining engineInv_def)
  have ran: "ran (assignment s') \<subseteq> set nids"
  proof
    fix v assume "v \<in> ran (assignment s')"
    then obtain k where "assignment s' k = Some v" by (auto simp: ran_def)
    then have "v = nurseId c \<or> v \<in> ran (assignment s)"
      by (auto simp: asg ran_def split: if_splits)
    then show "v \<in> set nids"
      using inv c by (auto simp: engineInv_def)
  qed
  show ?thesis
    unfolding engineInv_def
  proof (intro conjI)
    show "map nurseId (state s') = nids"
      using inv by (simp add: st updateNurseState_ids engineInv_def)
    show "distinct nids" using inv by (simp add: engineInv_def)
    show "\<forall>n \<in> set (state s'). 0 \<le> remaining n"
      using inv updateNurseState_remaining_nonneg[of "state s" "nurseId c" aRoom]
      by (simp add: st engineInv_def)
    show "dom (assignment s') \<subseteq> set ids" using inv r by (auto simp: asg engineInv_def)
    show "sum_list (map remaining (state s')) + int (card (dom (assignment s'))) = int (length ids)"
      using inv by (simp add: sum card engineInv_def)
    show "ran (assignment s') \<subseteq> set nids" by (rule ran)
  qed
qed

lemma assignRoundRobin_room_ok:
  assumes inv: "engineInv nids ids s" and d: "distinct ids"
    and r: "room aRoom \<in> set ids" and un: "assignment s (room aRoom) = None"
  shows "\<exists>s'. assignRoundRobin_room aRoom s = Inr s' \<and> engineInv nids ids s' \<and>
           dom (assignment s') = insert (room aRoom) (dom (assignment s))"
proof -
  from engineInv_has_capacity[OF inv d r un] assignRoundRobin_room_Inl_iff[of aRoom s]
  obtain s' where s': "assignRoundRobin_room aRoom s = Inr s'"
    by (cases "assignRoundRobin_room aRoom s") auto
  from assignRoundRobin_room_Inr[OF s'] obtain c where c: "c \<in> set (state s)" "0 < remaining c"
    and st: "state s' = updateNurseState (nurseId c) aRoom (state s)"
    and asg: "assignment s' = (assignment s)(room aRoom \<mapsto> nurseId c)" by blast
  have "engineInv nids ids s'" by (rule engineInv_update[OF inv r un c st asg])
  moreover have "dom (assignment s') = insert (room aRoom) (dom (assignment s))"
    by (simp add: asg)
  ultimately show ?thesis using s' by blast
qed

lemma assignWithScoring_ok:
  assumes inv: "engineInv nids ids s" and d: "distinct ids" and r: "room aRoom \<in> set ids"
  shows "\<exists>s'. assignWithScoring caps cm aRoom s = Inr s' \<and> engineInv nids ids s' \<and>
           dom (assignment s') = insert (room aRoom) (dom (assignment s))"
proof (cases "assignment s (room aRoom)")
  case (Some v)
  then have "assignWithScoring caps cm aRoom s = Inr s" by (simp add: assignWithScoring_def)
  moreover have "dom (assignment s) = insert (room aRoom) (dom (assignment s))"
    using Some by auto
  ultimately show ?thesis using inv by auto
next
  case None
  from engineInv_has_capacity[OF inv d r None] pickNurse_Inl_iff[of aRoom "state s" caps cm]
  obtain nid where "pickNurse aRoom (state s) caps cm = Inr nid"
    by (cases "pickNurse aRoom (state s) caps cm") auto
  then obtain s' where s': "assignWithScoring caps cm aRoom s = Inr s'"
    using None by (simp add: assignWithScoring_def)
  from assignWithScoring_Inr[OF s' None] obtain c where c: "c \<in> set (state s)" "0 < remaining c"
    and st: "state s' = updateNurseState (nurseId c) aRoom (state s)"
    and asg: "assignment s' = (assignment s)(room aRoom \<mapsto> nurseId c)" by blast
  have "engineInv nids ids s'" by (rule engineInv_update[OF inv r None c st asg])
  moreover have "dom (assignment s') = insert (room aRoom) (dom (assignment s))"
    by (simp add: asg)
  ultimately show ?thesis using s' by blast
qed

section \<open>A whole phase\<close>

lemma forEachE_roundRobin_ok:
  "engineInv nids ids s \<Longrightarrow> distinct ids \<Longrightarrow> set (map room rs) \<subseteq> set ids \<Longrightarrow>
   distinct (map room rs) \<Longrightarrow> \<forall>r \<in> set rs. assignment s (room r) = None \<Longrightarrow>
   \<exists>s'. forEachE assignRoundRobin_room rs s = Inr s' \<and> engineInv nids ids s' \<and>
        dom (assignment s') = dom (assignment s) \<union> set (map room rs)"
proof (induction rs arbitrary: s)
  case Nil
  then show ?case by simp
next
  case (Cons r rs)
  from Cons.prems have r: "room r \<in> set ids" and un: "assignment s (room r) = None" by auto
  from assignRoundRobin_room_ok[OF Cons.prems(1,2) r un] obtain s1 where
    s1: "assignRoundRobin_room r s = Inr s1" "engineInv nids ids s1"
        "dom (assignment s1) = insert (room r) (dom (assignment s))" by blast
  have un1: "\<forall>x \<in> set rs. assignment s1 (room x) = None"
  proof
    fix x assume x: "x \<in> set rs"
    with Cons.prems have "room x \<noteq> room r" "room x \<notin> dom (assignment s)"
      by (auto simp: image_iff)
    with s1(3) have "room x \<notin> dom (assignment s1)" by simp
    then show "assignment s1 (room x) = None" by auto
  qed
  from Cons.prems have "set (map room rs) \<subseteq> set ids" "distinct (map room rs)" by auto
  from Cons.IH[OF s1(2) Cons.prems(2) this un1] obtain s' where
    "forEachE assignRoundRobin_room rs s1 = Inr s'" "engineInv nids ids s'"
    "dom (assignment s') = dom (assignment s1) \<union> set (map room rs)" by blast
  with s1 show ?case by auto
qed

lemma forEachE_scoring_ok:
  "engineInv nids ids s \<Longrightarrow> distinct ids \<Longrightarrow> set (map room rs) \<subseteq> set ids \<Longrightarrow>
   \<exists>s'. forEachE (assignWithScoring caps cm) rs s = Inr s' \<and> engineInv nids ids s' \<and>
        dom (assignment s') = dom (assignment s) \<union> set (map room rs)"
proof (induction rs arbitrary: s)
  case Nil
  then show ?case by simp
next
  case (Cons r rs)
  from Cons.prems have r: "room r \<in> set ids" by auto
  from assignWithScoring_ok[OF Cons.prems(1,2) r] obtain s1 where
    s1: "assignWithScoring caps cm r s = Inr s1" "engineInv nids ids s1"
        "dom (assignment s1) = insert (room r) (dom (assignment s))" by blast
  from Cons.prems have "set (map room rs) \<subseteq> set ids" by auto
  from Cons.IH[OF s1(2) Cons.prems(2) this] obtain s' where
    "forEachE (assignWithScoring caps cm) rs s1 = Inr s'" "engineInv nids ids s'"
    "dom (assignment s') = dom (assignment s1) \<union> set (map room rs)" by blast
  with s1 show ?case by auto
qed

lemma assignRoundRobin_ok:
  assumes inv: "engineInv nids ids s" and d: "distinct ids"
    and sub: "set (map room data) \<subseteq> set ids" and dd: "distinct (map room data)"
  shows "\<exists>s'. assignRoundRobin data direction s = Inr s' \<and> engineInv nids ids s' \<and>
           dom (assignment s') = dom (assignment s) \<union> set (map room data)"
proof -
  let ?ordered = "filter (\<lambda>r. assignment s (room r) = None) (sortByAgeThenTime data direction)"
  have 1: "set (map room ?ordered) \<subseteq> set ids"
    using sub by (auto simp: sortByAgeThenTime_def set_sortBy)
  have 2: "distinct (map room ?ordered)"
    using dd by (simp add: sortByAgeThenTime_def distinct_map_filter distinct_map_sortBy)
  have 3: "\<forall>r \<in> set ?ordered. assignment s (room r) = None" by simp
  from forEachE_roundRobin_ok[OF inv d 1 2 3] obtain s' where
    s': "forEachE assignRoundRobin_room ?ordered s = Inr s'" "engineInv nids ids s'"
        "dom (assignment s') = dom (assignment s) \<union> set (map room ?ordered)" by blast
  have "dom (assignment s) \<union> set (map room ?ordered) = dom (assignment s) \<union> set (map room data)"
    by (auto simp: sortByAgeThenTime_def set_sortBy)
  with s' show ?thesis by (auto simp: assignRoundRobin_def Let_def)
qed

lemma assignSequence_ok:
  assumes inv: "engineInv nids ids s" and d: "distinct ids"
    and sub: "set (map room data) \<subseteq> set ids"
  shows "\<exists>s'. assignSequence caps cm data direction s = Inr s' \<and> engineInv nids ids s' \<and>
           dom (assignment s') = dom (assignment s) \<union> set (map room data)"
proof -
  let ?ordered = "filter (\<lambda>r. assignment s (room r) = None) (sortByAgeThenTime data direction)"
  have 1: "set (map room ?ordered) \<subseteq> set ids"
    using sub by (auto simp: sortByAgeThenTime_def set_sortBy)
  from forEachE_scoring_ok[OF inv d 1] obtain s' where
    s': "forEachE (assignWithScoring caps cm) ?ordered s = Inr s'" "engineInv nids ids s'"
        "dom (assignment s') = dom (assignment s) \<union> set (map room ?ordered)" by blast
  have "dom (assignment s) \<union> set (map room ?ordered) = dom (assignment s) \<union> set (map room data)"
    by (auto simp: sortByAgeThenTime_def set_sortBy)
  with s' show ?thesis by (auto simp: assignSequence_def)
qed

section \<open>The four phases\<close>

lemma assignRoomsToState_run_ok:
  assumes d: "distinct (map room rooms)"
    and inv: "engineInv nids (map room rooms) \<lparr>state = st, assignment = Map.empty, roundRobinIndex = 0\<rparr>"
  shows "\<exists>s. assignRoomsToState_run rooms st caps = Inr s \<and> engineInv nids (map room rooms) s \<and>
           dom (assignment s) = set (map room rooms)"
proof -
  let ?ids = "map room rooms"
  let ?s0 = "\<lparr>state = st, assignment = Map.empty, roundRobinIndex = 0\<rparr>"
  have sub: "\<And>P. set (map room (filter P rooms)) \<subseteq> set ?ids" by auto
  have dis: "\<And>P. distinct (map room (filter P rooms))" using d by (simp add: distinct_map_filter)
  from assignRoundRobin_ok[OF inv d sub dis] obtain s1 where
    s1: "assignRoundRobin (filter (\<lambda>r. discharge r = Y) rooms) oldest ?s0 = Inr s1"
        "engineInv nids ?ids s1" by blast
  from assignRoundRobin_ok[OF s1(2) d sub dis] obtain s2 where
    s2: "assignRoundRobin (filter (\<lambda>r. under_24 r = Y) rooms) oldest s1 = Inr s2"
        "engineInv nids ?ids s2" by blast
  from assignRoundRobin_ok[OF s2(2) d sub dis] obtain s3 where
    s3: "assignRoundRobin (filter (\<lambda>r. over_24 r = Y) rooms) oldest s2 = Inr s3"
        "engineInv nids ?ids s3" by blast
  from assignSequence_ok[OF s3(2) d sub] obtain s4 where
    s4: "assignSequence caps (capacityMapOf caps)
           (filter (\<lambda>r. assignment s3 (room r) = None) rooms) oldest s3 = Inr s4"
        "engineInv nids ?ids s4"
        "dom (assignment s4) = dom (assignment s3) \<union>
           set (map room (filter (\<lambda>r. assignment s3 (room r) = None) rooms))" by blast
  have "set ?ids \<subseteq> dom (assignment s4)" unfolding s4(3) by auto
  moreover have "dom (assignment s4) \<subseteq> set ?ids" using s4(2) by (simp add: engineInv_def)
  ultimately have "dom (assignment s4) = set ?ids" by blast
  moreover have "assignRoomsToState_run rooms st caps = Inr s4"
    using s1(1) s2(1) s3(1) s4(1) by (simp add: assignRoomsToState_run_def Let_def)
  ultimately show ?thesis using s4(2) by blast
qed

section \<open>The initial state\<close>

lemma buildInitialState_ids:
  "map nurseId (buildInitialState caps) = map NurseCapacity.nurseId caps"
  by (simp add: buildInitialState_def comp_def)

lemma buildInitialState_remaining:
  "map remaining (buildInitialState caps) = map capacity caps"
  by (simp add: buildInitialState_def comp_def)

lemma computeCapacities_ids: "map NurseCapacity.nurseId (computeCapacities R N) = map Suc [0..<N]"
  by (simp add: computeCapacities_def Let_def comp_def)

lemma engineInv_initial:
  assumes "1 \<le> N"
  shows "engineInv (map Suc [0..<N]) ids \<lparr>state = buildInitialState (computeCapacities (length ids) N),
                        assignment = Map.empty, roundRobinIndex = 0\<rparr>"
proof -
  have "distinct (map Suc [0..<N])" by (simp add: distinct_map)
  moreover have "\<forall>n \<in> set (buildInitialState (computeCapacities (length ids) N)). 0 \<le> remaining n"
    by (auto simp: buildInitialState_def computeCapacities_def Let_def)
  ultimately show ?thesis
    using computeCapacities_sum[OF assms, of "length ids"]
    by (simp add: engineInv_def buildInitialState_ids buildInitialState_remaining
        computeCapacities_ids del: map_Suc_upt)
qed

lemma room_derive: "room (assignRooms_derive row) = room row"
  by (simp add: assignRooms_derive_def Let_def)

lemma map_room_derive: "map room (map assignRooms_derive rows) = map room rows"
  by (simp add: comp_def room_derive)

text \<open>The engine returns a map whose keys are the room ids and whose values are nurse ids.\<close>

lemma assignRoomsToState_ok:
  assumes d: "distinct (map room rows)" and N: "1 \<le> N"
  shows "\<exists>m. assignRoomsToState (map assignRooms_derive rows)
               (buildInitialState (computeCapacities (length rows) N))
               (computeCapacities (length rows) N) = Inr m \<and>
             dom m = set (map room rows) \<and>
             (\<forall>rid nurse. m rid = Some nurse \<longrightarrow> 1 \<le> nurse \<and> nurse \<le> N)"
proof -
  let ?derived = "map assignRooms_derive rows"
  let ?caps = "computeCapacities (length rows) N"
  have d': "distinct (map room ?derived)" using d by (simp only: map_room_derive)
  have inv: "engineInv (map Suc [0..<N]) (map room ?derived)
               \<lparr>state = buildInitialState ?caps, assignment = Map.empty, roundRobinIndex = 0\<rparr>"
    using engineInv_initial[OF N, of "map room ?derived"] by simp
  from assignRoomsToState_run_ok[OF d' inv, of ?caps] obtain s where
    s: "assignRoomsToState_run ?derived (buildInitialState ?caps) ?caps = Inr s"
       "engineInv (map Suc [0..<N]) (map room ?derived) s" "dom (assignment s) = set (map room ?derived)" by blast
  have "\<forall>rid nurse. assignment s rid = Some nurse \<longrightarrow> 1 \<le> nurse \<and> nurse \<le> N"
  proof (intro allI impI)
    fix rid nurse assume "assignment s rid = Some nurse"
    then have "nurse \<in> ran (assignment s)" by (auto simp: ran_def)
    with s(2) have "nurse \<in> set (map Suc [0..<N])" by (auto simp: engineInv_def)
    then show "1 \<le> nurse \<and> nurse \<le> N" by auto
  qed
  with s(1,3) show ?thesis
    by (auto simp: assignRoomsToState_def map_room_derive simp del: map_map)
qed

section \<open>The result tables\<close>

lemma map_filter_all_Some:
  "\<forall>x \<in> set xs. f x \<noteq> None \<Longrightarrow> List.map_filter f xs = map (\<lambda>x. the (f x)) xs"
  by (induction xs) (auto simp: List.map_filter_simps)

lemma assignRooms_roomRow_Some:
  "m (room a) = Some nurse \<Longrightarrow>
     \<exists>row. assignRooms_roomRow m rk tot a = Some row \<and>
       RoomAssignmentRow.room row = room a \<and> RoomAssignmentRow.nurse_id row = nurse \<and>
       time row = timeParsed a \<and>
       rank_oldest row = (case rk (room a) of None \<Rightarrow> 1 | Some r \<Rightarrow> r) \<and>
       rank_youngest row = tot - rank_oldest row + 1"
  by (simp add: assignRooms_roomRow_def Let_def)

lemma perRoom_rows:
  assumes dom: "set (map room derived) \<subseteq> dom m"
  shows "map RoomAssignmentRow.room (List.map_filter (assignRooms_roomRow m rk tot) derived) =
           map room derived"
    and "\<forall>row \<in> set (List.map_filter (assignRooms_roomRow m rk tot) derived).
           m (RoomAssignmentRow.room row) = Some (RoomAssignmentRow.nurse_id row)"
proof -
  have all: "\<forall>a \<in> set derived. assignRooms_roomRow m rk tot a \<noteq> None"
    using dom by (auto simp: assignRooms_roomRow_def Let_def split: option.splits)
  have eq: "List.map_filter (assignRooms_roomRow m rk tot) derived =
            map (\<lambda>a. the (assignRooms_roomRow m rk tot a)) derived"
    by (rule map_filter_all_Some[OF all])
  have r: "\<And>a. a \<in> set derived \<Longrightarrow>
             RoomAssignmentRow.room (the (assignRooms_roomRow m rk tot a)) = room a \<and>
             m (room a) = Some (RoomAssignmentRow.nurse_id (the (assignRooms_roomRow m rk tot a)))"
  proof -
    fix a assume "a \<in> set derived"
    with dom obtain nurse where n: "m (room a) = Some nurse" by auto
    from assignRooms_roomRow_Some[of m a nurse rk tot] n
    show "RoomAssignmentRow.room (the (assignRooms_roomRow m rk tot a)) = room a \<and>
          m (room a) = Some (RoomAssignmentRow.nurse_id (the (assignRooms_roomRow m rk tot a)))"
      by auto
  qed
  show "map RoomAssignmentRow.room (List.map_filter (assignRooms_roomRow m rk tot) derived) =
          map room derived"
    unfolding eq using r by simp
  show "\<forall>row \<in> set (List.map_filter (assignRooms_roomRow m rk tot) derived).
          m (RoomAssignmentRow.room row) = Some (RoomAssignmentRow.nurse_id row)"
    unfolding eq using r by auto
qed

lemma sum_list_indicator:
  "1 \<le> a \<Longrightarrow> a \<le> N \<Longrightarrow>
     sum_list (map (\<lambda>idx. if a = idx + 1 then 1 else (0::nat)) [0..<N]) = 1"
proof (induction N)
  case 0
  then show ?case by simp
next
  case (Suc N)
  show ?case
  proof (cases "a = Suc N")
    case True
    have "sum_list (map (\<lambda>idx. if a = idx + 1 then 1 else (0::nat)) [0..<N]) = sum_list (map (\<lambda>idx. 0) [0..<N])"
      by (rule arg_cong[where f = sum_list]) (simp add: True)
    then show ?thesis using True by simp
  next
    case False
    with Suc show ?thesis by simp
  qed
qed

lemma sum_list_filter_lengths:
  "\<forall>r \<in> set xs. 1 \<le> f r \<and> f r \<le> N \<Longrightarrow>
     sum_list (map (\<lambda>idx. length (filter (\<lambda>r. f r = idx + 1) xs)) [0..<N]) = length xs"
proof (induction xs)
  case Nil
  then show ?case by (simp add: sum_list_triv)
next
  case (Cons x xs)
  have "sum_list (map (\<lambda>idx. length (filter (\<lambda>r. f r = idx + 1) (x # xs))) [0..<N]) =
        sum_list (map (\<lambda>idx. (if f x = idx + 1 then 1 else 0) +
                               length (filter (\<lambda>r. f r = idx + 1) xs)) [0..<N])"
    by (rule arg_cong[where f = sum_list]) simp
  also have "\<dots> = sum_list (map (\<lambda>idx. if f x = idx + 1 then 1 else (0::nat)) [0..<N]) +
                   sum_list (map (\<lambda>idx. length (filter (\<lambda>r. f r = idx + 1) xs)) [0..<N])"
    by (simp add: sum_list_addf)
  also have "\<dots> = 1 + length xs"
    using Cons.prems Cons.IH sum_list_indicator[of "f x" N] by simp
  finally show ?case by simp
qed

lemma nurseRow_fields:
  "nurse_id (assignRooms_nurseRow zc tz rows idx) = idx + 1"
  "n_rooms (assignRooms_nurseRow zc tz rows idx) =
     length (filter (\<lambda>r. RoomAssignmentRow.nurse_id r = idx + 1) rows)"
  by (simp_all add: assignRooms_nurseRow_def Let_def)

lemma nurseRow_no_rooms:
  "n_rooms (assignRooms_nurseRow zc tz rows idx) = 0 \<Longrightarrow>
     oldest_rank_received (assignRooms_nurseRow zc tz rows idx) = None \<and>
     youngest_rank_received (assignRooms_nurseRow zc tz rows idx) = None"
  by (simp add: assignRooms_nurseRow_def Let_def)

text \<open>What \<open>assignRooms\<close> returns for a non-empty list of rooms with distinct ids.\<close>

lemma assignRooms_nonempty:
  assumes d: "distinct (map room rows)" and N: "1 \<le> N" and ne: "rows \<noteq> []"
  shows "\<exists>m rows'.
           assignRoomsToState (map assignRooms_derive rows)
             (buildInitialState (computeCapacities (length rows) N))
             (computeCapacities (length rows) N) = Inr m \<and>
           dom m = set (map room rows) \<and>
           (\<forall>rid nurse. m rid = Some nurse \<longrightarrow> 1 \<le> nurse \<and> nurse \<le> N) \<and>
           assignRooms zc rows N tz =
             Inr \<lparr>perNurse = map (assignRooms_nurseRow zc tz rows') [0..<N], perRoom = rows'\<rparr> \<and>
           mset (map RoomAssignmentRow.room rows') = mset (map room rows) \<and>
           (\<forall>row \<in> set rows'. m (RoomAssignmentRow.room row) = Some (RoomAssignmentRow.nurse_id row))"
proof -
  let ?derived = "map assignRooms_derive rows"
  let ?caps = "computeCapacities (length rows) N"
  from assignRoomsToState_ok[OF d N] obtain m where
    m: "assignRoomsToState ?derived (buildInitialState ?caps) ?caps = Inr m"
       "dom m = set (map room rows)"
       "\<forall>rid nurse. m rid = Some nurse \<longrightarrow> 1 \<le> nurse \<and> nurse \<le> N" by blast
  let ?pre = "List.map_filter
                (assignRooms_roomRow m (denseRankOldest ?derived) (int (length ?derived))) ?derived"
  let ?rows' = "sortBy assignRooms_compare ?pre"
  have sub: "set (map room ?derived) \<subseteq> dom m" using m(2) by (simp only: map_room_derive)
  have 1: "mset (map RoomAssignmentRow.room ?rows') = mset (map room rows)"
    using perRoom_rows(1)[OF sub] by (simp only: mset_map_sortBy map_room_derive)
  have 2: "\<forall>row \<in> set ?rows'. m (RoomAssignmentRow.room row) = Some (RoomAssignmentRow.nurse_id row)"
    using perRoom_rows(2)[OF sub] by (simp only: set_sortBy)
  have 3: "assignRooms zc rows N tz =
             Inr \<lparr>perNurse = map (assignRooms_nurseRow zc tz ?rows') [0..<N], perRoom = ?rows'\<rparr>"
    using ne m(1) by (simp add: assignRooms_def Let_def)
  from m 1 2 3 show ?thesis by blast
qed

section \<open>The per-nurse books\<close>

lemma updateNurseState_nth:
  "distinct (map nurseId st) \<Longrightarrow> i < length st \<Longrightarrow>
     remaining (updateNurseState (nurseId (st ! i)) r st ! i) = max 0 (remaining (st ! i) - 1) \<and>
     nAssigned (updateNurseState (nurseId (st ! i)) r st ! i) = nAssigned (st ! i) + 1 \<and>
     (\<forall>j < length st. j \<noteq> i \<longrightarrow> updateNurseState (nurseId (st ! i)) r st ! j = st ! j)"
proof (induction st arbitrary: i)
  case Nil
  then show ?case by simp
next
  case (Cons n st)
  show ?case
  proof (cases i)
    case 0
    then show ?thesis by (auto simp: nth_Cons')
  next
    case (Suc k)
    with Cons.prems have k: "k < length st" and ne: "nurseId n \<noteq> nurseId (st ! k)"
      by (auto simp: image_iff)
    from Cons.prems have "distinct (map nurseId st)" by simp
    from Cons.IH[OF this k] ne Suc show ?thesis by (auto simp: nth_Cons')
  qed
qed

lemma booksBalanced_step:
  assumes b: "booksBalanced caps (state s)" and d: "distinct (map NurseCapacity.nurseId caps)"
    and c: "c \<in> set (state s)" "0 < remaining c"
    and st: "state s' = updateNurseState (nurseId c) aRoom (state s)"
    and asg: "assignment s' = (assignment s)(room aRoom \<mapsto> nurseId c)"
  shows "\<exists>i < length (state s).
           0 < remaining (state s ! i) \<and>
           assignment s' = (assignment s)(room aRoom \<mapsto> nurseId (state s ! i)) \<and>
           remaining (state s' ! i) = remaining (state s ! i) - 1 \<and>
           nAssigned (state s' ! i) = nAssigned (state s ! i) + 1 \<and>
           (\<forall>j < length (state s). j \<noteq> i \<longrightarrow> state s' ! j = state s ! j) \<and>
           booksBalanced caps (state s')"
proof -
  from c(1) obtain i where i: "i < length (state s)" "state s ! i = c"
    by (auto simp: in_set_conv_nth)
  have ids: "map nurseId (state s) = map NurseCapacity.nurseId caps"
    using b by (auto simp: booksBalanced_def intro: nth_equalityI)
  then have ds: "distinct (map nurseId (state s))" using d by simp
  note u = updateNurseState_nth[OF ds i(1), of aRoom, unfolded i(2)]
  have len: "length (state s') = length (state s)" by (simp add: st updateNurseState_length)
  have ids': "map nurseId (state s') = map nurseId (state s)" by (simp add: st updateNurseState_ids)
  have r: "remaining (state s' ! i) = remaining c - 1" using u c(2) by (simp add: st)
  have n: "nAssigned (state s' ! i) = nAssigned c + 1" using u by (simp add: st)
  have o: "\<forall>j < length (state s). j \<noteq> i \<longrightarrow> state s' ! j = state s ! j" using u by (simp add: st)
  have "booksBalanced caps (state s')"
    unfolding booksBalanced_def
  proof (intro conjI allI impI)
    show "length (state s') = length caps" using b len by (simp add: booksBalanced_def)
  next
    fix j assume j: "j < length caps"
    then have js: "j < length (state s)" using b by (simp add: booksBalanced_def)
    have "nurseId (state s' ! j) = nurseId (state s ! j)"
      using ids' js len by (metis nth_map)
    then show "nurseId (state s' ! j) = NurseCapacity.nurseId (caps ! j)"
      using b j by (simp add: booksBalanced_def)
    show "remaining (state s' ! j) + nAssigned (state s' ! j) = capacity (caps ! j)"
      using b j js r n o i by (cases "j = i") (auto simp: booksBalanced_def)
    show "0 \<le> remaining (state s' ! j)"
      using b j js r o i c(2) by (cases "j = i") (auto simp: booksBalanced_def)
    show "nAssigned (state s' ! j) \<le> capacity (caps ! j)"
      using b j js r n o i c(2) by (cases "j = i") (auto simp: booksBalanced_def)
  qed
  with i c(2) asg r n o show ?thesis by auto
qed

lemma booksBalanced_initial:
  "\<forall>c \<in> set caps. 0 \<le> capacity c \<Longrightarrow> booksBalanced caps (buildInitialState caps)"
  by (simp add: booksBalanced_def buildInitialState_def)

lemma reachable_booksBalanced:
  assumes d: "distinct (map NurseCapacity.nurseId caps)" and nn: "\<forall>c \<in> set caps. 0 \<le> capacity c"
  shows "reachable caps s \<Longrightarrow> booksBalanced caps (state s)"
proof (induction rule: reachable.induct)
  case start
  then show ?case using booksBalanced_initial[OF nn] by simp
next
  case (roundRobin s aRoom s')
  from assignRoundRobin_room_Inr[OF roundRobin(2)] obtain c where
    "c \<in> set (state s)" "0 < remaining c"
    "state s' = updateNurseState (nurseId c) aRoom (state s)"
    "assignment s' = (assignment s)(room aRoom \<mapsto> nurseId c)" by blast
  from booksBalanced_step[OF roundRobin(3) d this] show ?case by blast
next
  case (scored s aRoom s')
  show ?case
  proof (cases "assignment s (room aRoom)")
    case (Some v)
    with scored(2) have "s' = s" by (simp add: assignWithScoring_def)
    with scored(3) show ?thesis by simp
  next
    case None
    from assignWithScoring_Inr[OF scored(2) None] obtain c where
      "c \<in> set (state s)" "0 < remaining c"
      "state s' = updateNurseState (nurseId c) aRoom (state s)"
      "assignment s' = (assignment s)(room aRoom \<mapsto> nurseId c)" by blast
    from booksBalanced_step[OF scored(3) d this] show ?thesis by blast
  qed
qed

lemma forEachE_reachable:
  assumes f: "\<And>x s s'. reachable caps s \<Longrightarrow> f x s = Inr s' \<Longrightarrow> reachable caps s'"
  shows "reachable caps s \<Longrightarrow> forEachE f xs s = Inr s' \<Longrightarrow> reachable caps s'"
proof (induction xs arbitrary: s)
  case Nil
  then show ?case by simp
next
  case (Cons x xs)
  from Cons.prems(2) obtain s1 where s1: "f x s = Inr s1" "forEachE f xs s1 = Inr s'"
    by (auto split: sum.splits)
  from f[OF Cons.prems(1) s1(1)] have "reachable caps s1" .
  from Cons.IH[OF this s1(2)] show ?case .
qed

lemma run_reachable:
  assumes "assignRoomsToState_run rooms (buildInitialState caps) caps = Inr s"
  shows "reachable caps s"
proof -
  let ?s0 = "\<lparr>state = buildInitialState caps, assignment = Map.empty, roundRobinIndex = 0\<rparr>"
  have rr: "\<And>data dir s s'. reachable caps s \<Longrightarrow> assignRoundRobin data dir s = Inr s' \<Longrightarrow>
              reachable caps s'"
    unfolding assignRoundRobin_def Let_def
    by (erule forEachE_reachable[rotated]) (auto intro: reachable.roundRobin)
  have sq: "\<And>data dir s s'. reachable caps s \<Longrightarrow>
              assignSequence caps (capacityMapOf caps) data dir s = Inr s' \<Longrightarrow> reachable caps s'"
    unfolding assignSequence_def
    by (erule forEachE_reachable[rotated]) (auto intro: reachable.scored)
  from assms obtain s1 s2 s3 where
    "assignRoundRobin (filter (\<lambda>r. discharge r = Y) rooms) oldest ?s0 = Inr s1"
    "assignRoundRobin (filter (\<lambda>r. under_24 r = Y) rooms) oldest s1 = Inr s2"
    "assignRoundRobin (filter (\<lambda>r. over_24 r = Y) rooms) oldest s2 = Inr s3"
    "assignSequence caps (capacityMapOf caps)
       (filter (\<lambda>r. assignment s3 (room r) = None) rooms) oldest s3 = Inr s"
    by (auto simp: assignRoomsToState_run_def Let_def split: sum.splits)
  with rr sq reachable.start[of caps] show ?thesis by blast
qed

lemma computeCapacities_wellformed:
  "distinct (map NurseCapacity.nurseId (computeCapacities R N))"
  "\<forall>c \<in> set (computeCapacities R N). 0 \<le> capacity c"
  by (auto simp: computeCapacities_def Let_def comp_def distinct_map intro: inj_onI)

section \<open>Per-nurse tag counts in terms of the assignment map\<close>

lemma length_filter_sortBy:
  "length (filter Q (sortBy cmp xs)) = length (filter Q xs)"
proof -
  have "mset (filter Q (sortBy cmp xs)) = mset (filter Q xs)"
    by (simp only: mset_filter mset_sortBy)
  then show ?thesis by (metis size_mset)
qed

lemma perRoom_count:
  assumes dom: "set (map room derived) \<subseteq> dom m"
  shows "length (filter Q (sortBy cmp (List.map_filter (assignRooms_roomRow m rk tot) derived))) =
         length (filter (\<lambda>a. Q (the (assignRooms_roomRow m rk tot a))) derived)"
proof -
  have all: "\<forall>a \<in> set derived. assignRooms_roomRow m rk tot a \<noteq> None"
    using dom by (auto simp: assignRooms_roomRow_def Let_def split: option.splits)
  show ?thesis
    by (simp only: length_filter_sortBy map_filter_all_Some[OF all] filter_map length_map comp_def)
qed

lemma roomRow_tags:
  "m (room a) = Some nurse \<Longrightarrow>
     discharge (the (assignRooms_roomRow m rk tot a)) = discharge a \<and>
     bfi (the (assignRooms_roomRow m rk tot a)) = bfi a \<and>
     cs (the (assignRooms_roomRow m rk tot a)) = cs a \<and>
     RoomAssignmentRow.nurse_id (the (assignRooms_roomRow m rk tot a)) = nurse"
  by (simp add: assignRooms_roomRow_def Let_def)

lemma nurseRow_tag_counts:
  "n_discharge (assignRooms_nurseRow zc tz rows idx) =
     length (filter (\<lambda>r. discharge r = Y \<and> RoomAssignmentRow.nurse_id r = idx + 1) rows)"
  "n_bfi (assignRooms_nurseRow zc tz rows idx) =
     length (filter (\<lambda>r. bfi r = Y \<and> RoomAssignmentRow.nurse_id r = idx + 1) rows)"
  "n_cs (assignRooms_nurseRow zc tz rows idx) =
     length (filter (\<lambda>r. cs r = Y \<and> RoomAssignmentRow.nurse_id r = idx + 1) rows)"
  by (simp_all add: assignRooms_nurseRow_def Let_def conj_commute)

text \<open>
  When the engine returns the map \<open>m\<close> for a non-empty list of rooms, the per-nurse counts of
  the tags \<^verbatim>\<open>discharge\<close>, \<^verbatim>\<open>bfi\<close> and \<^verbatim>\<open>cs\<close> are the numbers of tagged input rooms that \<open>m\<close>
  gives to the nurse.
\<close>

lemma assignRooms_tag_counts:
  assumes m: "assignRoomsToState (map assignRooms_derive rows)
                (buildInitialState (computeCapacities (length rows) N))
                (computeCapacities (length rows) N) = Inr m"
    and dom: "set (map room rows) \<subseteq> dom m" and ne: "rows \<noteq> []"
  shows "\<exists>res. assignRooms zc rows N tz = Inr res \<and>
           map n_discharge (perNurse res) =
             map (\<lambda>idx. length (filter (\<lambda>a. discharge a = Y \<and> m (room a) = Some (idx + 1)) rows))
               [0..<N] \<and>
           map n_bfi (perNurse res) =
             map (\<lambda>idx. length (filter (\<lambda>a. bfi a = Y \<and> m (room a) = Some (idx + 1)) rows))
               [0..<N] \<and>
           map n_cs (perNurse res) =
             map (\<lambda>idx. length (filter (\<lambda>a. cs a = Y \<and> m (room a) = Some (idx + 1)) rows))
               [0..<N]"
proof -
  let ?derived = "map assignRooms_derive rows"
  let ?rk = "denseRankOldest ?derived"
  let ?tot = "int (length ?derived)"
  let ?rows' = "sortBy assignRooms_compare (List.map_filter (assignRooms_roomRow m ?rk ?tot) ?derived)"
  have sub: "set (map room ?derived) \<subseteq> dom m" using dom by (simp only: map_room_derive)
  have res: "assignRooms zc rows N tz =
               Inr \<lparr>perNurse = map (assignRooms_nurseRow zc tz ?rows') [0..<N], perRoom = ?rows'\<rparr>"
    using ne m by (simp add: assignRooms_def Let_def)
  have tag: "\<And>a. a \<in> set rows \<Longrightarrow>
      discharge (the (assignRooms_roomRow m ?rk ?tot (assignRooms_derive a))) = discharge a \<and>
      bfi (the (assignRooms_roomRow m ?rk ?tot (assignRooms_derive a))) = bfi a \<and>
      cs (the (assignRooms_roomRow m ?rk ?tot (assignRooms_derive a))) = cs a \<and>
      Some (RoomAssignmentRow.nurse_id (the (assignRooms_roomRow m ?rk ?tot (assignRooms_derive a))))
        = m (room a)"
  proof -
    fix a assume "a \<in> set rows"
    with dom obtain nurse where n: "m (room (assignRooms_derive a)) = Some nurse"
      by (auto simp: room_derive)
    from roomRow_tags[of m "assignRooms_derive a" nurse ?rk ?tot] n
    show "discharge (the (assignRooms_roomRow m ?rk ?tot (assignRooms_derive a))) = discharge a \<and>
      bfi (the (assignRooms_roomRow m ?rk ?tot (assignRooms_derive a))) = bfi a \<and>
      cs (the (assignRooms_roomRow m ?rk ?tot (assignRooms_derive a))) = cs a \<and>
      Some (RoomAssignmentRow.nurse_id (the (assignRooms_roomRow m ?rk ?tot (assignRooms_derive a))))
        = m (room a)"
      by (simp add: assignRooms_derive_def Let_def)
  qed
  have cnt: "\<And>Q. length (filter Q ?rows') =
      length (filter (\<lambda>a. Q (the (assignRooms_roomRow m ?rk ?tot (assignRooms_derive a)))) rows)"
    by (simp only: perRoom_count[OF sub] filter_map length_map comp_def)
  have 1: "map n_discharge (map (assignRooms_nurseRow zc tz ?rows') [0..<N]) =
        map (\<lambda>idx. length (filter (\<lambda>a. discharge a = Y \<and> m (room a) = Some (idx + 1)) rows)) [0..<N]"
    unfolding map_map comp_def nurseRow_tag_counts cnt
    by (intro map_cong refl arg_cong[where f = length] filter_cong) (use tag in force)
  have 2: "map n_bfi (map (assignRooms_nurseRow zc tz ?rows') [0..<N]) =
        map (\<lambda>idx. length (filter (\<lambda>a. bfi a = Y \<and> m (room a) = Some (idx + 1)) rows)) [0..<N]"
    unfolding map_map comp_def nurseRow_tag_counts cnt
    by (intro map_cong refl arg_cong[where f = length] filter_cong) (use tag in force)
  have 3: "map n_cs (map (assignRooms_nurseRow zc tz ?rows') [0..<N]) =
        map (\<lambda>idx. length (filter (\<lambda>a. cs a = Y \<and> m (room a) = Some (idx + 1)) rows)) [0..<N]"
    unfolding map_map comp_def nurseRow_tag_counts cnt
    by (intro map_cong refl arg_cong[where f = length] filter_cong) (use tag in force)
  from res 1 2 3 show ?thesis by simp
qed

section \<open>The scenarios of the tests, evaluated\<close>

lemmas derive_simps = assignRooms_derive_def makeRow_def noFlags_def roomWorkload_def
  makeEffectiveLoad_def roomGroupKey_def startsWith_def Let_def pad2_def stablePseudoRandomKey_def

lemmas engine_simps = assignRoomsToState_def assignRoomsToState_run_def assignRoundRobin_def
  assignSequence_def assignRoundRobin_room_def assignWithScoring_def getRoundRobinOrder_def
  pickNurse_def pickNurse_score_def pickNurse_compare_def capacityMapOf_def
  sortByAgeThenTime_def sortBy_def compareByAgeThenTime_def getAgePriority_def
  buildInitialState_def computeCapacities_def upt_rec PEN_BFI_REPEAT_def PEN_CS_REPEAT_def

lemma rows_discharges_map:
  "\<exists>m. assignRoomsToState (map assignRooms_derive rows_discharges)
         (buildInitialState (computeCapacities (length rows_discharges) 3))
         (computeCapacities (length rows_discharges) 3) = Inr m \<and>
       map m [''1'', ''3'', ''5'', ''7'', ''9'', ''11''] =
         [Some 1, Some 2, Some 3, Some 1, Some 2, Some 3] \<and>
       m ''14-1'' \<noteq> None \<and> m ''14-2'' \<noteq> None"
proof -
  have "map_sum id (\<lambda>m. map m [''1'', ''3'', ''5'', ''7'', ''9'', ''11'', ''14-1'', ''14-2''])
          (assignRoomsToState (map assignRooms_derive rows_discharges)
             (buildInitialState (computeCapacities (length rows_discharges) 3))
             (computeCapacities (length rows_discharges) 3)) =
        Inr [Some 1, Some 2, Some 3, Some 1, Some 2, Some 3, Some 1, Some 2]"
    by (simp add: rows_discharges_def derive_simps engine_simps)
  then show ?thesis
    by (cases "assignRoomsToState (map assignRooms_derive rows_discharges)
             (buildInitialState (computeCapacities (length rows_discharges) 3))
             (computeCapacities (length rows_discharges) 3)") auto
qed

lemma rows_discharges_phase1:
  "map_sum id (\<lambda>s. map (assignment s) [''1'', ''3'', ''5'', ''7'', ''9'', ''11'', ''14-1'', ''14-2''])
     (assignRoundRobin (filter (\<lambda>r. discharge r = Y) (map assignRooms_derive rows_discharges))
        oldest
        \<lparr>state = buildInitialState (computeCapacities (length rows_discharges) 3),
         assignment = Map.empty, roundRobinIndex = 0\<rparr>) =
   Inr [Some 1, Some 2, Some 3, Some 1, Some 2, Some 3, None, None]"
  by (simp add: rows_discharges_def derive_simps engine_simps)

lemma rows_bfi_cs_map:
  "\<exists>m. assignRoomsToState (map assignRooms_derive rows_bfi_cs)
         (buildInitialState (computeCapacities (length rows_bfi_cs) 3))
         (computeCapacities (length rows_bfi_cs) 3) = Inr m \<and>
       map m [''19'', ''21'', ''23'', ''25'', ''27'', ''32-1''] =
         [Some 1, Some 2, Some 3, Some 1, Some 2, Some 3]"
proof -
  have "map_sum id (\<lambda>m. map m [''19'', ''21'', ''23'', ''25'', ''27'', ''32-1''])
          (assignRoomsToState (map assignRooms_derive rows_bfi_cs)
             (buildInitialState (computeCapacities (length rows_bfi_cs) 3))
             (computeCapacities (length rows_bfi_cs) 3)) =
        Inr [Some 1, Some 2, Some 3, Some 1, Some 2, Some 3]"
    by (simp add: rows_bfi_cs_def derive_simps engine_simps)
  then show ?thesis
    by (cases "assignRoomsToState (map assignRooms_derive rows_bfi_cs)
             (buildInitialState (computeCapacities (length rows_bfi_cs) 3))
             (computeCapacities (length rows_bfi_cs) 3)") auto
qed

lemma rows_tight_map:
  "\<exists>m. assignRoomsToState (map assignRooms_derive rows_tight)
         (buildInitialState (computeCapacities (length rows_tight) 2))
         (computeCapacities (length rows_tight) 2) = Inr m \<and>
       map m [''1'', ''3'', ''5''] = [Some 1, Some 2, Some 1]"
proof -
  have "map_sum id (\<lambda>m. map m [''1'', ''3'', ''5''])
          (assignRoomsToState (map assignRooms_derive rows_tight)
             (buildInitialState (computeCapacities (length rows_tight) 2))
             (computeCapacities (length rows_tight) 2)) =
        Inr [Some 1, Some 2, Some 1]"
    by (simp add: rows_tight_def derive_simps engine_simps)
  then show ?thesis
    by (cases "assignRoomsToState (map assignRooms_derive rows_tight)
             (buildInitialState (computeCapacities (length rows_tight) 2))
             (computeCapacities (length rows_tight) 2)") auto
qed

lemma rows_discharges_counts:
  "map_sum id (map n_discharge \<circ> perNurse) (assignRooms zc rows_discharges 3 tz) = Inr [2, 2, 2]"
proof -
  from rows_discharges_map obtain m where
    m: "assignRoomsToState (map assignRooms_derive rows_discharges)
         (buildInitialState (computeCapacities (length rows_discharges) 3))
         (computeCapacities (length rows_discharges) 3) = Inr m"
    and v: "map m [''1'', ''3'', ''5'', ''7'', ''9'', ''11''] =
         [Some 1, Some 2, Some 3, Some 1, Some 2, Some 3]"
    and w: "m ''14-1'' \<noteq> None" "m ''14-2'' \<noteq> None"
    by (elim exE conjE)
  have dom: "set (map room rows_discharges) \<subseteq> dom m"
    using v w by (auto simp: rows_discharges_def makeRow_def)
  have ne: "rows_discharges \<noteq> []" by (simp add: rows_discharges_def)
  from assignRooms_tag_counts[OF m dom ne, of zc tz] obtain res where
    res: "assignRooms zc rows_discharges 3 tz = Inr res"
      "map n_discharge (perNurse res) =
         map (\<lambda>idx. length (filter (\<lambda>a. discharge a = Y \<and> m (room a) = Some (idx + 1))
                              rows_discharges)) [0..<3]" by blast
  have "map (\<lambda>idx. length (filter (\<lambda>a. discharge a = Y \<and> m (room a) = Some (idx + 1))
                              rows_discharges)) [0..<3] = [2, 2, 2]"
    using v by (simp add: rows_discharges_def makeRow_def noFlags_def upt_rec)
  with res show ?thesis by simp
qed

section \<open>The hash key\<close>



section \<open>The engine does not read the hash key\<close>















section \<open>Sorted results\<close>

lemma sorted_wrt_insertBy:
  assumes tr: "\<And>x y z. R x y \<Longrightarrow> R y z \<Longrightarrow> R x z"
    and le: "\<And>x y. cmp x y \<le> 0 \<Longrightarrow> R x y"
    and gt: "\<And>x y. \<not> cmp x y \<le> 0 \<Longrightarrow> R y x"
  shows "sorted_wrt R xs \<Longrightarrow> sorted_wrt R (insertBy cmp x xs)"
proof (induction xs)
  case Nil
  then show ?case by simp
next
  case (Cons y ys)
  show ?case
  proof (cases "cmp x y \<le> 0")
    case True
    then have "R x y" by (rule le)
    moreover have "\<forall>z \<in> set ys. R x z" using \<open>R x y\<close> Cons.prems tr by auto
    ultimately show ?thesis using True Cons.prems by simp
  next
    case False
    then have "R y x" by (rule gt)
    moreover have "set (insertBy cmp x ys) = insert x (set ys)"
      using mset_insertBy[of cmp x ys] by (metis set_mset_mset set_mset_add_mset_insert)
    ultimately show ?thesis using False Cons by auto
  qed
qed

lemma sorted_wrt_sortBy:
  assumes tr: "\<And>x y z. R x y \<Longrightarrow> R y z \<Longrightarrow> R x z"
    and le: "\<And>x y. cmp x y \<le> 0 \<Longrightarrow> R x y"
    and gt: "\<And>x y. \<not> cmp x y \<le> 0 \<Longrightarrow> R y x"
  shows "sorted_wrt R (sortBy cmp xs)"
  unfolding sortBy_def
  by (induction xs) (simp_all add: sorted_wrt_insertBy[of R cmp, OF tr le gt])

lemma localeCompare_total: "localeCompare x y \<le> 0 \<or> localeCompare y x \<le> 0"
  by (induction x y rule: localeCompare.induct) auto

lemma localeCompare_Nil_le: "localeCompare [] z \<le> 0"
  by (cases z) simp_all

lemma localeCompare_trans:
  "localeCompare x y \<le> 0 \<Longrightarrow> localeCompare y z \<le> 0 \<Longrightarrow> localeCompare x z \<le> 0"
proof (induction x y arbitrary: z rule: localeCompare.induct)
  case 1
  show ?case by (rule localeCompare_Nil_le)
next
  case (2 y ys)
  show ?case by (rule localeCompare_Nil_le)
next
  case (3 x xs)
  then show ?case by simp
next
  case (4 x xs y ys)
  show ?case
  proof (cases z)
    case Nil
    with "4.prems" show ?thesis by simp
  next
    case (Cons c cs)
    show ?thesis
    proof (cases "(of_char x :: nat) < of_char y")
      case True
      with "4.prems"(2) Cons have "(of_char x :: nat) < of_char c"
        by (simp split: if_splits)
      then show ?thesis using Cons by simp
    next
      case False
      with "4.prems"(1) have xy: "(of_char x :: nat) = of_char y" "localeCompare xs ys \<le> 0"
        by (simp_all split: if_splits)
      show ?thesis
      proof (cases "(of_char y :: nat) < of_char c")
        case True
        then show ?thesis using Cons xy by simp
      next
        case False
        with "4.prems"(2) Cons have yc: "(of_char y :: nat) = of_char c" "localeCompare ys cs \<le> 0"
          by (simp_all split: if_splits)
        have "localeCompare xs cs \<le> 0"
          using "4.IH"[OF _ _ xy(2) yc(2)] xy(1) by simp
        then show ?thesis using Cons xy(1) yc(1) by simp
      qed
    qed
  qed
qed



lemma denseRankOldest_sorted:
  "sorted_wrt (\<lambda>a b. toMillis (timeParsed a) \<le> toMillis (timeParsed b))
     (sortBy denseRankOldest_compare rooms)"
proof (rule sorted_wrt_sortBy)
  fix x y :: DerivedRoom
  assume "denseRankOldest_compare x y \<le> 0"
  then show "toMillis (timeParsed x) \<le> toMillis (timeParsed y)"
    by (auto simp: denseRankOldest_compare_def split: if_splits)
next
  fix x y :: DerivedRoom
  assume "\<not> denseRankOldest_compare x y \<le> 0"
  then show "toMillis (timeParsed y) \<le> toMillis (timeParsed x)"
    by (auto simp: denseRankOldest_compare_def split: if_splits)
qed auto

section \<open>Dense ranks\<close>

lemma denseRankOldest_loop_other:
  "k \<notin> room ` set rs \<Longrightarrow> denseRankOldest_loop rs ranks cur lst k = ranks k"
  by (induction rs arbitrary: ranks cur lst) (auto simp: Let_def)

lemma denseRankOldest_loop_rank:
  assumes "sorted_wrt (\<lambda>a b. toMillis (timeParsed a) \<le> toMillis (timeParsed b)) rs"
    and "distinct (map room rs)"
    and "lst = None \<or> (\<exists>l. lst = Some l \<and> (\<forall>a \<in> set rs. l \<le> toMillis (timeParsed a)))"
    and "r \<in> set rs"
  shows "denseRankOldest_loop rs ranks cur lst (room r) =
           Some (cur + int (card {m \<in> (\<lambda>a. toMillis (timeParsed a)) ` set rs.
                                   m \<le> toMillis (timeParsed r) \<and> Some m \<noteq> lst}))"
  using assms
proof (induction rs arbitrary: ranks cur lst)
  case Nil
  then show ?case by simp
next
  case (Cons a rest)
  let ?M = "\<lambda>a. toMillis (timeParsed a)"
  have sorted: "sorted_wrt (\<lambda>a b. ?M a \<le> ?M b) rest" and ge: "\<forall>x \<in> set rest. ?M a \<le> ?M x"
    using Cons.prems(1) by auto
  have dist: "distinct (map room rest)" and fresh: "room a \<notin> room ` set rest"
    using Cons.prems(2) by auto
  have ger: "?M a \<le> ?M r" using Cons.prems(4) ge by auto
  have lst_lt: "\<forall>x \<in> set (a # rest). Some (?M x) \<noteq> lst" if "lst \<noteq> Some (?M a)"
  proof
    fix x assume x: "x \<in> set (a # rest)"
    show "Some (?M x) \<noteq> lst"
    proof
      assume e: "Some (?M x) = lst"
      with Cons.prems(3) have "\<forall>y \<in> set (a # rest). ?M x \<le> ?M y" by auto
      then have "?M x \<le> ?M a" by simp
      moreover have "?M a \<le> ?M x" using x ge by auto
      ultimately show False using e that by simp
    qed
  qed
  show ?case
  proof (cases "lst = Some (?M a)")
    case same: True
    have step: "denseRankOldest_loop (a # rest) ranks cur lst =
                denseRankOldest_loop rest (ranks(room a \<mapsto> cur)) cur lst"
      using same by (simp add: Let_def)
    show ?thesis
    proof (cases "r = a")
      case True
      have "{m \<in> ?M ` set (a # rest). m \<le> ?M a \<and> Some m \<noteq> lst} = {}"
        using same ge by auto
      moreover have "denseRankOldest_loop rest (ranks(room a \<mapsto> cur)) cur lst (room a) = Some cur"
        using denseRankOldest_loop_other[OF fresh] by simp
      ultimately show ?thesis
        using True by (simp only: step) simp
    next
      case False
      with Cons.prems(4) have r: "r \<in> set rest" by simp
      have l: "lst = None \<or> (\<exists>l. lst = Some l \<and> (\<forall>a \<in> set rest. l \<le> ?M a))"
        using same ge by auto
      have "{m \<in> ?M ` set (a # rest). m \<le> ?M r \<and> Some m \<noteq> lst} =
            {m \<in> ?M ` set rest. m \<le> ?M r \<and> Some m \<noteq> lst}"
        using same by auto
      then show ?thesis
        using Cons.IH[OF sorted dist l r] by (simp only: step)
    qed
  next
    case new: False
    have step: "denseRankOldest_loop (a # rest) ranks cur lst =
                denseRankOldest_loop rest (ranks(room a \<mapsto> cur + 1)) (cur + 1) (Some (?M a))"
      using new by (auto simp: Let_def)
    show ?thesis
    proof (cases "r = a")
      case True
      have "{m \<in> ?M ` set (a # rest). m \<le> ?M a \<and> Some m \<noteq> lst} = {?M a}"
        using new ge by auto
      moreover have "denseRankOldest_loop rest (ranks(room a \<mapsto> cur + 1)) (cur + 1)
                       (Some (?M a)) (room a) = Some (cur + 1)"
        using denseRankOldest_loop_other[OF fresh] by simp
      ultimately show ?thesis
        using True by (simp only: step) simp
    next
      case False
      with Cons.prems(4) have r: "r \<in> set rest" by simp
      have l: "Some (?M a) = None \<or>
               (\<exists>l. Some (?M a) = Some l \<and> (\<forall>a \<in> set rest. l \<le> ?M a))"
        using ge by auto
      let ?T = "{m \<in> ?M ` set rest. m \<le> ?M r \<and> Some m \<noteq> Some (?M a)}"
      have "{m \<in> ?M ` set (a # rest). m \<le> ?M r \<and> Some m \<noteq> lst} = insert (?M a) ?T"
        using lst_lt[OF new] ger by auto
      moreover have "finite ?T" "?M a \<notin> ?T" by auto
      ultimately have "card {m \<in> ?M ` set (a # rest). m \<le> ?M r \<and> Some m \<noteq> lst} = card ?T + 1"
        by simp
      then show ?thesis
        using Cons.IH[OF sorted dist l r] by (simp only: step) simp
    qed
  qed
qed

lemma denseRankOldest_rank:
  assumes d: "distinct (map room rooms)" and r: "r \<in> set rooms"
  shows "denseRankOldest rooms (room r) =
           Some (int (card {m \<in> (\<lambda>a. toMillis (timeParsed a)) ` set rooms.
                             m \<le> toMillis (timeParsed r)}))"
proof -
  let ?ranked = "sortBy denseRankOldest_compare rooms"
  have 1: "distinct (map room ?ranked)" using d by (simp only: distinct_map_sortBy)
  have 2: "r \<in> set ?ranked" using r by (simp only: set_sortBy)
  from denseRankOldest_loop_rank[OF denseRankOldest_sorted 1 _ 2, of None Map.empty 0]
  show ?thesis by (simp add: denseRankOldest_def set_sortBy)
qed

lemma card_le_eq_iff:
  assumes fin: "finite S" and a: "a \<in> S" and b: "b \<in> S"
  shows "card {m \<in> S. m \<le> a} = card {m \<in> S. m \<le> (b::int)} \<longleftrightarrow> a = b"
proof
  assume eq: "card {m \<in> S. m \<le> a} = card {m \<in> S. m \<le> b}"
  have less: "card {m \<in> S. m \<le> x} < card {m \<in> S. m \<le> y}" if "x < y" "y \<in> S" for x y :: int
  proof (rule psubset_card_mono)
    show "finite {m \<in> S. m \<le> y}" using fin by simp
    have "y \<in> {m \<in> S. m \<le> y}" "y \<notin> {m \<in> S. m \<le> x}" using that by auto
    moreover have "{m \<in> S. m \<le> x} \<subseteq> {m \<in> S. m \<le> y}" using that by auto
    ultimately show "{m \<in> S. m \<le> x} \<subset> {m \<in> S. m \<le> y}" by blast
  qed
  show "a = b"
  proof (rule ccontr)
    assume "a \<noteq> b"
    then consider "a < b" | "b < a" by linarith
    then show False using less[of a b] less[of b a] a b eq by cases auto
  qed
qed simp

lemma denseRankOldest_compare_le:
  "denseRankOldest_compare a b \<le> 0 \<longleftrightarrow>
     toMillis (timeParsed a) < toMillis (timeParsed b) \<or>
     toMillis (timeParsed a) = toMillis (timeParsed b) \<and> localeCompare (room a) (room b) \<le> 0"
  by (auto simp: denseRankOldest_compare_def)

lemma denseRankOldest_sorted_full:
  "sorted_wrt (\<lambda>a b. denseRankOldest_compare a b \<le> 0) (sortBy denseRankOldest_compare rooms)"
proof (rule sorted_wrt_sortBy)
  fix x y z
  assume "denseRankOldest_compare x y \<le> 0" "denseRankOldest_compare y z \<le> 0"
  then show "denseRankOldest_compare x z \<le> 0"
    unfolding denseRankOldest_compare_le
    using localeCompare_trans[of "room x" "room y" "room z"] by auto
next
  fix x y assume "denseRankOldest_compare x y \<le> 0"
  then show "denseRankOldest_compare x y \<le> 0" .
next
  fix x y assume "\<not> denseRankOldest_compare x y \<le> 0"
  then show "denseRankOldest_compare y x \<le> 0"
    unfolding denseRankOldest_compare_le
    using localeCompare_total[of "room x" "room y"] by auto
qed

lemma card_le_first:
  assumes s: "sorted_wrt (\<lambda>a b. f a \<le> (f b :: int)) xs" and ne: "xs \<noteq> []"
  shows "card {m \<in> f ` set xs. m \<le> f (xs ! 0)} = 1"
proof -
  from ne obtain x rest where xs: "xs = x # rest" by (cases xs) auto
  with s have "\<forall>y \<in> set rest. f x \<le> f y" by simp
  then have "{m \<in> f ` set xs. m \<le> f (xs ! 0)} = {f x}" using xs by auto
  then show ?thesis by simp
qed

lemma card_le_next:
  assumes s: "sorted_wrt (\<lambda>a b. f a \<le> (f b :: int)) xs" and i: "i + 1 < length xs"
  shows "card {m \<in> f ` set xs. m \<le> f (xs ! (i + 1))} =
         card {m \<in> f ` set xs. m \<le> f (xs ! i)} + (if f (xs ! (i + 1)) \<noteq> f (xs ! i) then 1 else 0)"
proof -
  let ?A = "{m \<in> f ` set xs. m \<le> f (xs ! i)}"
  let ?B = "{m \<in> f ` set xs. m \<le> f (xs ! (i + 1))}"
  have nth: "\<And>j k. j < k \<Longrightarrow> k < length xs \<Longrightarrow> f (xs ! j) \<le> f (xs ! k)"
    using s by (simp add: sorted_wrt_iff_nth_less)
  have le: "f (xs ! i) \<le> f (xs ! (i + 1))" using nth[of i "i + 1"] i by simp
  show ?thesis
  proof (cases "f (xs ! (i + 1)) = f (xs ! i)")
    case True
    then show ?thesis by simp
  next
    case False
    with le have lt: "f (xs ! i) < f (xs ! (i + 1))" by simp
    have "?B = insert (f (xs ! (i + 1))) ?A"
    proof (intro equalityI subsetI)
      fix m assume m: "m \<in> ?B"
      then obtain j where j: "j < length xs" "m = f (xs ! j)"
        by (auto simp: in_set_conv_nth)
      show "m \<in> insert (f (xs ! (i + 1))) ?A"
      proof (cases "j \<le> i")
        case True
        then have "f (xs ! j) \<le> f (xs ! i)"
          using nth[of j i] i by (cases "j = i") auto
        then show ?thesis using m j by auto
      next
        case False
        then have "f (xs ! (i + 1)) \<le> f (xs ! j)"
          using nth[of "i + 1" j] j by (cases "j = i + 1") auto
        then show ?thesis using m j by auto
      qed
    next
      fix m assume "m \<in> insert (f (xs ! (i + 1))) ?A"
      then show "m \<in> ?B" using le i by auto
    qed
    moreover have "f (xs ! (i + 1)) \<notin> ?A" using lt by auto
    moreover have "finite ?A" by simp
    ultimately show ?thesis using False by simp
  qed
qed

lemma set_map_filter_roomRow:
  "row \<in> set (List.map_filter (assignRooms_roomRow m rk tot) derived) \<Longrightarrow>
     \<exists>a \<in> set derived. assignRooms_roomRow m rk tot a = Some row"
  by (auto simp: List.map_filter_def)

lemma roomRow_ranks:
  "assignRooms_roomRow m rk tot a = Some row \<Longrightarrow>
     time row = timeParsed a \<and> RoomAssignmentRow.room row = room a \<and>
     rank_oldest row = (case rk (room a) of None \<Rightarrow> 1 | Some r \<Rightarrow> r) \<and>
     rank_youngest row = tot - rank_oldest row + 1"
  by (auto simp: assignRooms_roomRow_def Let_def split: option.splits)

section \<open>The flags of a nurse and the rooms it holds\<close>

lemma runState_ids:
  "runState rooms caps s \<Longrightarrow> map nurseId (state s) = map NurseCapacity.nurseId caps"
proof (induction rule: runState.induct)
  case start
  show ?case by (simp add: buildInitialState_ids)
next
  case (roundRobin s aRoom s')
  from assignRoundRobin_room_Inr[OF roundRobin(4)] roundRobin(5) show ?case
    by (auto simp: updateNurseState_ids)
next
  case (scored s aRoom s')
  show ?case
  proof (cases "assignment s (room aRoom)")
    case (Some v)
    with scored(3) have "s' = s" by (simp add: assignWithScoring_def)
    with scored(4) show ?thesis by simp
  next
    case None
    from assignWithScoring_Inr[OF scored(3) None] scored(4) show ?thesis
      by (auto simp: updateNurseState_ids)
  qed
qed

lemma updateNurseState_nth_flags:
  "distinct (map nurseId st) \<Longrightarrow> i < length st \<Longrightarrow>
     nurseId (updateNurseState (nurseId (st ! i)) r st ! i) = nurseId (st ! i) \<and>
     hasBfi (updateNurseState (nurseId (st ! i)) r st ! i) = (bfi r = Y \<or> hasBfi (st ! i)) \<and>
     hasCs (updateNurseState (nurseId (st ! i)) r st ! i) = (cs r = Y \<or> hasCs (st ! i)) \<and>
     (\<forall>j < length st. j \<noteq> i \<longrightarrow> updateNurseState (nurseId (st ! i)) r st ! j = st ! j)"
proof (induction st arbitrary: i)
  case Nil
  then show ?case by simp
next
  case (Cons n st)
  show ?case
  proof (cases i)
    case 0
    then show ?thesis by (auto simp: nth_Cons')
  next
    case (Suc k)
    with Cons.prems have k: "k < length st" and ne: "nurseId n \<noteq> nurseId (st ! k)"
      by (auto simp: image_iff)
    from Cons.prems have "distinct (map nurseId st)" by simp
    from Cons.IH[OF this k] ne Suc show ?thesis by (auto simp: nth_Cons')
  qed
qed

lemma holds_update_gen:
  assumes d: "distinct (map room rooms)" and a: "aRoom \<in> set rooms"
    and un: "assignment s (room aRoom) = None"
    and asg: "assignment s' = (assignment s)(room aRoom \<mapsto> nid)"
  shows "(\<exists>r \<in> set rooms. P r \<and> assignment s' (room r) = Some k) \<longleftrightarrow>
         k = nid \<and> P aRoom \<or> (\<exists>r \<in> set rooms. P r \<and> assignment s (room r) = Some k)"
proof
  assume "\<exists>r \<in> set rooms. P r \<and> assignment s' (room r) = Some k"
  then obtain r where r: "r \<in> set rooms" "P r" "assignment s' (room r) = Some k" by blast
  show "k = nid \<and> P aRoom \<or> (\<exists>r \<in> set rooms. P r \<and> assignment s (room r) = Some k)"
  proof (cases "room r = room aRoom")
    case True
    with d a r(1) have "r = aRoom" by (meson distinct_map inj_onD)
    with r(2,3) show ?thesis by (simp add: asg)
  next
    case False
    with r(3) have "assignment s (room r) = Some k" by (simp add: asg)
    with r(1,2) show ?thesis by blast
  qed
next
  assume "k = nid \<and> P aRoom \<or> (\<exists>r \<in> set rooms. P r \<and> assignment s (room r) = Some k)"
  then show "\<exists>r \<in> set rooms. P r \<and> assignment s' (room r) = Some k"
  proof
    assume "k = nid \<and> P aRoom"
    then have "P aRoom \<and> assignment s' (room aRoom) = Some k" by (simp add: asg)
    with a show ?thesis by blast
  next
    assume "\<exists>r \<in> set rooms. P r \<and> assignment s (room r) = Some k"
    then obtain r where r: "r \<in> set rooms" "P r" "assignment s (room r) = Some k" by blast
    with un have "room r \<noteq> room aRoom" by auto
    with r(3) have "assignment s' (room r) = Some k" by (simp add: asg)
    with r(1,2) show ?thesis by blast
  qed
qed

lemma holds_update:
  assumes d: "distinct (map room rooms)" and a: "aRoom \<in> set rooms"
    and un: "assignment s (room aRoom) = None"
    and asg: "assignment s' = (assignment s)(room aRoom \<mapsto> nid)"
  shows "holdsBfi rooms s' n \<longleftrightarrow> nurseId n = nid \<and> bfi aRoom = Y \<or> holdsBfi rooms s n"
    and "holdsCs rooms s' n \<longleftrightarrow> nurseId n = nid \<and> cs aRoom = Y \<or> holdsCs rooms s n"
  unfolding holdsBfi_def holdsCs_def
  using holds_update_gen[OF d a un asg, of "\<lambda>r. bfi r = Y" "nurseId n"]
    holds_update_gen[OF d a un asg, of "\<lambda>r. cs r = Y" "nurseId n"]
  by simp_all

lemma flags_step:
  assumes link: "\<forall>n \<in> set (state s). (hasBfi n \<longleftrightarrow> holdsBfi rooms s n) \<and>
                                      (hasCs n \<longleftrightarrow> holdsCs rooms s n)"
    and dn: "distinct (map nurseId (state s))"
    and d: "distinct (map room rooms)" and a: "aRoom \<in> set rooms"
    and un: "assignment s (room aRoom) = None"
    and c: "c \<in> set (state s)"
    and st: "state s' = updateNurseState (nurseId c) aRoom (state s)"
    and asg: "assignment s' = (assignment s)(room aRoom \<mapsto> nurseId c)"
  shows "\<forall>n \<in> set (state s'). (hasBfi n \<longleftrightarrow> holdsBfi rooms s' n) \<and>
                                (hasCs n \<longleftrightarrow> holdsCs rooms s' n)"
proof
  fix n' assume "n' \<in> set (state s')"
  then obtain j where j: "j < length (state s')" "n' = state s' ! j"
    by (auto simp: in_set_conv_nth)
  from c obtain i where i: "i < length (state s)" "state s ! i = c"
    by (auto simp: in_set_conv_nth)
  have len: "length (state s') = length (state s)" by (simp add: st updateNurseState_length)
  note u = updateNurseState_nth_flags[OF dn i(1), of aRoom, unfolded i(2), folded st]
  note h = holds_update[OF d a un asg]
  have same_id: "\<And>x y. nurseId x = nurseId y \<Longrightarrow>
      holdsBfi rooms s x = holdsBfi rooms s y \<and> holdsCs rooms s x = holdsCs rooms s y"
    by (simp add: holdsBfi_def holdsCs_def)
  show "(hasBfi n' \<longleftrightarrow> holdsBfi rooms s' n') \<and> (hasCs n' \<longleftrightarrow> holdsCs rooms s' n')"
  proof (cases "j = i")
    case True
    have id: "nurseId n' = nurseId c" using u True j(2) by simp
    have "hasBfi n' = (bfi aRoom = Y \<or> hasBfi c)" "hasCs n' = (cs aRoom = Y \<or> hasCs c)"
      using u True j(2) by simp_all
    moreover have "hasBfi c = holdsBfi rooms s c" "hasCs c = holdsCs rooms s c"
      using link c by simp_all
    moreover have "holdsBfi rooms s n' = holdsBfi rooms s c" "holdsCs rooms s n' = holdsCs rooms s c"
      using same_id[OF id] by simp_all
    ultimately show ?thesis using h[of n'] id by simp
  next
    case False
    have eq: "n' = state s ! j" using u False j len by simp
    have js: "j < length (state s)" using j len by simp
    then have mem: "n' \<in> set (state s)" using eq by simp
    have "nurseId n' \<noteq> nurseId c"
      using dn js i False eq by (auto simp: distinct_conv_nth)
    then show ?thesis using h[of n'] link mem by simp
  qed
qed

lemma runState_flags:
  assumes d: "distinct (map room rooms)" and dc: "distinct (map NurseCapacity.nurseId caps)"
  shows "runState rooms caps s \<Longrightarrow>
           \<forall>n \<in> set (state s). (hasBfi n \<longleftrightarrow> holdsBfi rooms s n) \<and>
                                 (hasCs n \<longleftrightarrow> holdsCs rooms s n)"
proof (induction rule: runState.induct)
  case start
  show ?case by (auto simp: buildInitialState_def holdsBfi_def holdsCs_def)
next
  case (roundRobin s aRoom s')
  have dn: "distinct (map nurseId (state s))"
    using runState_ids[OF roundRobin(1)] dc by simp
  from assignRoundRobin_room_Inr[OF roundRobin(4)] obtain c where
    c: "c \<in> set (state s)"
    and st: "state s' = updateNurseState (nurseId c) aRoom (state s)"
    and asg: "assignment s' = (assignment s)(room aRoom \<mapsto> nurseId c)" by blast
  show ?case by (rule flags_step[OF roundRobin(5) dn d roundRobin(2,3) c st asg])
next
  case (scored s aRoom s')
  show ?case
  proof (cases "assignment s (room aRoom)")
    case (Some v)
    with scored(3) have "s' = s" by (simp add: assignWithScoring_def)
    with scored(4) show ?thesis by simp
  next
    case None
    have dn: "distinct (map nurseId (state s))"
      using runState_ids[OF scored(1)] dc by simp
    from assignWithScoring_Inr[OF scored(3) None] obtain c where
      c: "c \<in> set (state s)"
      and st: "state s' = updateNurseState (nurseId c) aRoom (state s)"
      and asg: "assignment s' = (assignment s)(room aRoom \<mapsto> nurseId c)" by blast
    show ?thesis by (rule flags_step[OF scored(4) dn d scored(2) None c st asg])
  qed
qed

section \<open>A run passes through run states only\<close>

lemma forEachE_roundRobin_runState:
  "runState rooms caps s \<Longrightarrow> set rs \<subseteq> set rooms \<Longrightarrow> distinct (map room rs) \<Longrightarrow>
   \<forall>r \<in> set rs. assignment s (room r) = None \<Longrightarrow>
   forEachE assignRoundRobin_room rs s = Inr s' \<Longrightarrow> runState rooms caps s'"
proof (induction rs arbitrary: s)
  case Nil
  then show ?case by simp
next
  case (Cons r rs)
  from Cons.prems(5) obtain s1 where s1: "assignRoundRobin_room r s = Inr s1"
    and rest: "forEachE assignRoundRobin_room rs s1 = Inr s'"
    by (auto split: sum.splits)
  have r: "r \<in> set rooms" "assignment s (room r) = None" using Cons.prems(2,4) by auto
  have run1: "runState rooms caps s1"
    by (rule runState.roundRobin[OF Cons.prems(1) r s1])
  from assignRoundRobin_room_Inr[OF s1] obtain c where
    "c \<in> set (state s)" and
    asg: "assignment s1 = (assignment s)(room r \<mapsto> nurseId c)" by auto
  have un1: "\<forall>x \<in> set rs. assignment s1 (room x) = None"
  proof
    fix x assume x: "x \<in> set rs"
    with Cons.prems(3,4) have "room x \<noteq> room r" "assignment s (room x) = None"
      by (auto simp: image_iff)
    then show "assignment s1 (room x) = None" by (simp add: asg)
  qed
  from Cons.prems(2,3) have "set rs \<subseteq> set rooms" "distinct (map room rs)" by auto
  from Cons.IH[OF run1 this un1 rest] show ?case .
qed

lemma forEachE_scoring_runState:
  "runState rooms caps s \<Longrightarrow> set rs \<subseteq> set rooms \<Longrightarrow>
   forEachE (assignWithScoring caps (capacityMapOf caps)) rs s = Inr s' \<Longrightarrow>
   runState rooms caps s'"
proof (induction rs arbitrary: s)
  case Nil
  then show ?case by simp
next
  case (Cons r rs)
  from Cons.prems(3) obtain s1 where
    s1: "assignWithScoring caps (capacityMapOf caps) r s = Inr s1"
    and rest: "forEachE (assignWithScoring caps (capacityMapOf caps)) rs s1 = Inr s'"
    by (auto split: sum.splits)
  have r: "r \<in> set rooms" using Cons.prems(2) by auto
  have run1: "runState rooms caps s1" by (rule runState.scored[OF Cons.prems(1) r s1])
  from Cons.prems(2) have "set rs \<subseteq> set rooms" by auto
  from Cons.IH[OF run1 this rest] show ?case .
qed

lemma assignRoundRobin_runState:
  assumes run: "runState rooms caps s" and d: "distinct (map room rooms)"
    and step: "assignRoundRobin (filter P rooms) direction s = Inr s'"
  shows "runState rooms caps s'"
proof -
  let ?ordered = "filter (\<lambda>r. assignment s (room r) = None)
                    (sortByAgeThenTime (filter P rooms) direction)"
  have 1: "set ?ordered \<subseteq> set rooms" by (auto simp: sortByAgeThenTime_def set_sortBy)
  have 2: "distinct (map room ?ordered)"
    using d by (simp add: sortByAgeThenTime_def distinct_map_filter distinct_map_sortBy)
  have 3: "\<forall>r \<in> set ?ordered. assignment s (room r) = None" by simp
  from step have "forEachE assignRoundRobin_room ?ordered s = Inr s'"
    by (simp add: assignRoundRobin_def Let_def)
  from forEachE_roundRobin_runState[OF run 1 2 3 this] show ?thesis .
qed

lemma assignSequence_runState:
  assumes run: "runState rooms caps s"
    and step: "assignSequence caps (capacityMapOf caps) (filter P rooms) direction s = Inr s'"
  shows "runState rooms caps s'"
proof -
  let ?ordered = "filter (\<lambda>r. assignment s (room r) = None)
                    (sortByAgeThenTime (filter P rooms) direction)"
  have 1: "set ?ordered \<subseteq> set rooms" by (auto simp: sortByAgeThenTime_def set_sortBy)
  from step have "forEachE (assignWithScoring caps (capacityMapOf caps)) ?ordered s = Inr s'"
    by (simp add: assignSequence_def)
  from forEachE_scoring_runState[OF run 1 this] show ?thesis .
qed

lemma run_runState:
  assumes d: "distinct (map room rooms)"
    and r: "assignRoomsToState_run rooms (buildInitialState caps) caps = Inr s"
  shows "runState rooms caps s"
proof -
  let ?s0 = "\<lparr>state = buildInitialState caps, assignment = Map.empty, roundRobinIndex = 0\<rparr>"
  from r obtain s1 s2 s3 where
    1: "assignRoundRobin (filter (\<lambda>r. discharge r = Y) rooms) oldest ?s0 = Inr s1" and
    2: "assignRoundRobin (filter (\<lambda>r. under_24 r = Y) rooms) oldest s1 = Inr s2" and
    3: "assignRoundRobin (filter (\<lambda>r. over_24 r = Y) rooms) oldest s2 = Inr s3" and
    4: "assignSequence caps (capacityMapOf caps)
          (filter (\<lambda>r. assignment s3 (room r) = None) rooms) oldest s3 = Inr s"
    by (auto simp: assignRoomsToState_run_def Let_def split: sum.splits)
  have r1: "runState rooms caps s1"
    by (rule assignRoundRobin_runState[OF runState.start d 1])
  have r2: "runState rooms caps s2" by (rule assignRoundRobin_runState[OF r1 d 2])
  have r3: "runState rooms caps s3" by (rule assignRoundRobin_runState[OF r2 d 3])
  show ?thesis by (rule assignSequence_runState[OF r3 4])
qed

section \<open>The nurse that the round-robin step takes\<close>

lemma assignRoundRobin_room_choice:
  assumes link: "\<forall>n \<in> set (state s). (hasBfi n \<longleftrightarrow> holdsBfi rooms s n) \<and>
                                      (hasCs n \<longleftrightarrow> holdsCs rooms s n)"
    and step: "assignRoundRobin_room aRoom s = Inr s'"
  shows "\<exists>c rest.
           (filter (\<lambda>n. \<not> wouldDuplicate rooms s aRoom n)
               (filter (\<lambda>n. 0 < remaining n) (rotate (roundRobinIndex s) (state s))) = c # rest \<or>
            filter (\<lambda>n. \<not> wouldDuplicate rooms s aRoom n)
               (filter (\<lambda>n. 0 < remaining n) (rotate (roundRobinIndex s) (state s))) = [] \<and>
            filter (\<lambda>n. 0 < remaining n) (rotate (roundRobinIndex s) (state s)) = c # rest) \<and>
           c \<in> set (state s) \<and> 0 < remaining c \<and>
           ((\<exists>n \<in> set (state s). 0 < remaining n \<and> \<not> wouldDuplicate rooms s aRoom n) \<longrightarrow>
              \<not> wouldDuplicate rooms s aRoom c) \<and>
           assignment s' = (assignment s)(room aRoom \<mapsto> nurseId c) \<and>
           state s' = updateNurseState (nurseId c) aRoom (state s)"
proof -
  let ?cands = "filter (\<lambda>nurse. remaining nurse > 0) (getRoundRobinOrder s)"
  let ?flagP = "\<lambda>nurse. \<not> (bfi aRoom = Y \<and> hasBfi nurse) \<and> \<not> (cs aRoom = Y \<and> hasCs nurse)"
  let ?free = "filter (\<lambda>n. \<not> wouldDuplicate rooms s aRoom n) ?cands"
  have sub: "set ?cands \<subseteq> set (state s)" by (auto simp: set_getRoundRobinOrder)
  have feq: "filter ?flagP ?cands = ?free"
  proof (rule filter_cong[OF refl])
    fix n assume "n \<in> set ?cands"
    with sub link have "hasBfi n = holdsBfi rooms s n" "hasCs n = holdsCs rooms s n" by auto
    then show "?flagP n = (\<not> wouldDuplicate rooms s aRoom n)"
      by (simp add: wouldDuplicate_def)
  qed
  from step obtain first rs where cs: "?cands = first # rs"
    by (cases ?cands) (auto simp: assignRoundRobin_room_def Let_def)
  define c where "c = (case ?free of [] \<Rightarrow> first | x # _ \<Rightarrow> x)"
  have res: "assignRoundRobin_room aRoom s =
          Inr \<lparr>state = updateNurseState (nurseId c) aRoom (state s),
               assignment = (assignment s)(room aRoom \<mapsto> nurseId c),
               roundRobinIndex =
                 nat ((findIndex (\<lambda>n. nurseId n = nurseId c) (state s) + 1) mod
                      int (length (state s)))\<rparr>"
    unfolding assignRoundRobin_room_def Let_def feq c_def
    by (simp only: cs list.case)
  have shape: "\<exists>rest. ?free = c # rest \<or> ?free = [] \<and> ?cands = c # rest"
  proof (cases ?free)
    case Nil
    then show ?thesis using cs by (simp add: c_def)
  next
    case (Cons x xs)
    then show ?thesis by (simp add: c_def)
  qed
  then obtain rest where rest: "?free = c # rest \<or> ?free = [] \<and> ?cands = c # rest" by blast
  have cin: "c \<in> set ?cands"
  proof -
    from rest have "c \<in> set ?free \<or> c \<in> set ?cands" by (metis list.set_intros(1))
    then show ?thesis by auto
  qed
  then have c1: "c \<in> set (state s)" "0 < remaining c" using sub by auto
  have c2: "\<not> wouldDuplicate rooms s aRoom c"
    if "\<exists>n \<in> set (state s). 0 < remaining n \<and> \<not> wouldDuplicate rooms s aRoom n"
  proof -
    from that have "?free \<noteq> []" by (auto simp: filter_empty_conv set_getRoundRobinOrder)
    with rest have "c \<in> set ?free" by (metis list.set_intros(1))
    then show ?thesis by simp
  qed
  from step res have "assignment s' = (assignment s)(room aRoom \<mapsto> nurseId c)"
    "state s' = updateNurseState (nurseId c) aRoom (state s)" by auto
  with rest c1 c2 show ?thesis
    unfolding getRoundRobinOrder_rotate by blast
qed

section \<open>Three assignments of a run, evaluated\<close>

lemmas step_simps = assignRoundRobin_room_def getRoundRobinOrder_def buildInitialState_def
  computeCapacities_def upt_rec

lemma oneAssigned_step:
  "assignRoundRobin_room (assignRooms_derive (makeRow ''1'' 8 0 (noFlags\<lparr>discharge := Y, bfi := Y\<rparr>)))
     \<lparr>state = buildInitialState (computeCapacities 4 2), assignment = Map.empty,
      roundRobinIndex = 0\<rparr> = Inr oneAssigned"
  by (simp add: oneAssigned_def derive_simps step_simps)

lemma twoAssigned_step:
  "assignRoundRobin_room (assignRooms_derive (makeRow ''3'' 9 0 (noFlags\<lparr>discharge := Y\<rparr>)))
     oneAssigned = Inr twoAssigned"
  by (simp add: oneAssigned_def twoAssigned_def derive_simps step_simps)

lemma threeAssigned_step:
  "map_sum id (\<lambda>s. assignment s ''5'')
     (assignRoundRobin_room
        (assignRooms_derive (makeRow ''5'' 10 0 (noFlags\<lparr>discharge := Y, bfi := Y\<rparr>)))
        twoAssigned) = Inr (Some 2)"
  by (simp add: twoAssigned_def derive_simps step_simps)

lemma twoAssigned_runState:
  "runState (map assignRooms_derive rows_four) (computeCapacities 4 2) twoAssigned"
proof -
  let ?D = "map assignRooms_derive rows_four"
  have 1: "runState ?D (computeCapacities 4 2) oneAssigned"
    by (rule runState.roundRobin[OF runState.start _ _ oneAssigned_step])
       (simp_all add: rows_four_def)
  show ?thesis
    by (rule runState.roundRobin[OF 1 _ _ twoAssigned_step])
       (simp_all add: rows_four_def oneAssigned_def assignRooms_derive_def makeRow_def Let_def)
qed

text \<open>
  C1: for rooms with pairwise distinct ids and at least one nurse, the engine returns an
  assignment map whose keys are exactly the input room ids, each mapped to one nurse id in
  \<open>1..N\<close>; the per-room table holds every input room id exactly once, with that nurse; every
  per-nurse row counts the per-room rows of its nurse, and the counts sum to the number of rooms.
\<close>

theorem assignRooms_coverage:
  assumes "distinct (map room rows)" and "1 \<le> N"
  shows "\<exists>m res.
           assignRoomsToState (map assignRooms_derive rows)
             (buildInitialState (computeCapacities (length rows) N))
             (computeCapacities (length rows) N) = Inr m \<and>
           dom m = set (map room rows) \<and>
           (\<forall>rid nurse. m rid = Some nurse \<longrightarrow> 1 \<le> nurse \<and> nurse \<le> N) \<and>
           assignRooms zc rows N tz = Inr res \<and>
           mset (map RoomAssignmentRow.room (perRoom res)) = mset (map room rows) \<and>
           distinct (map RoomAssignmentRow.room (perRoom res)) \<and>
           (\<forall>row \<in> set (perRoom res).
              m (RoomAssignmentRow.room row) = Some (RoomAssignmentRow.nurse_id row)) \<and>
           (\<forall>n \<in> set (perNurse res).
              n_rooms n = length (filter (\<lambda>row. RoomAssignmentRow.nurse_id row = nurse_id n)
                                   (perRoom res))) \<and>
           sum_list (map n_rooms (perNurse res)) = length rows"
proof (cases "rows = []")
  case True
  from assignRoomsToState_ok[OF assms] obtain m where
    "assignRoomsToState (map assignRooms_derive rows)
       (buildInitialState (computeCapacities (length rows) N))
       (computeCapacities (length rows) N) = Inr m"
    "dom m = set (map room rows)"
    "\<forall>rid nurse. m rid = Some nurse \<longrightarrow> 1 \<le> nurse \<and> nurse \<le> N" by blast
  moreover have "assignRooms zc rows N tz = Inr \<lparr>perNurse = [], perRoom = []\<rparr>"
    using True by (simp add: assignRooms_def)
  ultimately show ?thesis using True by auto
next
  case False
  from assignRooms_nonempty[OF assms False, of zc tz] obtain m rows' where
    m: "assignRoomsToState (map assignRooms_derive rows)
          (buildInitialState (computeCapacities (length rows) N))
          (computeCapacities (length rows) N) = Inr m"
       "dom m = set (map room rows)"
       "\<forall>rid nurse. m rid = Some nurse \<longrightarrow> 1 \<le> nurse \<and> nurse \<le> N"
    and res: "assignRooms zc rows N tz =
               Inr \<lparr>perNurse = map (assignRooms_nurseRow zc tz rows') [0..<N], perRoom = rows'\<rparr>"
    and ms: "mset (map RoomAssignmentRow.room rows') = mset (map room rows)"
    and nurse: "\<forall>row \<in> set rows'. m (RoomAssignmentRow.room row) = Some (RoomAssignmentRow.nurse_id row)"
    by blast
  let ?res = "\<lparr>perNurse = map (assignRooms_nurseRow zc tz rows') [0..<N], perRoom = rows'\<rparr>"
  have dist: "distinct (map RoomAssignmentRow.room rows')"
    using ms assms(1) by (metis mset_eq_imp_distinct_iff)
  have len: "length rows' = length rows"
    using ms by (metis length_map size_mset)
  have range: "\<forall>row \<in> set rows'. 1 \<le> RoomAssignmentRow.nurse_id row \<and> RoomAssignmentRow.nurse_id row \<le> N"
    using nurse m(3) by blast
  have counts: "\<forall>n \<in> set (perNurse ?res).
      n_rooms n = length (filter (\<lambda>row. RoomAssignmentRow.nurse_id row = nurse_id n) (perRoom ?res))"
    by (auto simp: nurseRow_fields)
  have "sum_list (map n_rooms (perNurse ?res)) =
        sum_list (map (\<lambda>idx. length (filter (\<lambda>r. RoomAssignmentRow.nurse_id r = idx + 1) rows')) [0..<N])"
    by (simp add: comp_def nurseRow_fields)
  also have "\<dots> = length rows'" by (rule sum_list_filter_lengths[OF range])
  finally have total: "sum_list (map n_rooms (perNurse ?res)) = length rows" using len by simp
  show ?thesis
    apply (rule exI[of _ m], rule exI[of _ ?res])
    using m res ms dist nurse counts total by simp
qed

text \<open>
  The coverage theorem at the four rooms of the third test, with 2 nurses.
\<close>

theorem assignRooms_coverage_witness:
  "distinct (map room rows_deterministic) \<and> (1::nat) \<le> 2 \<and>
   (\<exists>m res.
      assignRoomsToState (map assignRooms_derive rows_deterministic)
        (buildInitialState (computeCapacities (length rows_deterministic) 2))
        (computeCapacities (length rows_deterministic) 2) = Inr m \<and>
      dom m = set (map room rows_deterministic) \<and>
      assignRooms ownZoneClock rows_deterministic 2 TZ = Inr res \<and>
      mset (map RoomAssignmentRow.room (perRoom res)) = mset (map room rows_deterministic) \<and>
      sum_list (map n_rooms (perNurse res)) = length rows_deterministic)"
proof -
  have d: "distinct (map room rows_deterministic)"
    by (simp add: rows_deterministic_def makeRow_def)
  from assignRooms_coverage[OF d, of 2 ownZoneClock TZ] d show ?thesis by auto
qed

text \<open>
  C4, as the code has it: for a non-empty list of rooms with distinct ids and \<open>N \<ge> 1\<close> nurses the
  per-nurse table has exactly \<open>N\<close> rows, with nurse ids \<open>1..N\<close> in this order, also for nurses
  without rooms, and a nurse without rooms has null oldest and youngest rank received; for the
  empty list of rooms both tables are empty.
\<close>

theorem assignRooms_perNurse_rows:
  assumes "distinct (map room rows)" and "1 \<le> N"
  shows "\<exists>res. assignRooms zc rows N tz = Inr res \<and>
           (rows \<noteq> [] \<longrightarrow>
              length (perNurse res) = N \<and>
              map nurse_id (perNurse res) = map Suc [0..<N] \<and>
              (\<forall>n \<in> set (perNurse res).
                 n_rooms n = 0 \<longrightarrow>
                   oldest_rank_received n = None \<and> youngest_rank_received n = None)) \<and>
           (rows = [] \<longrightarrow> perNurse res = [] \<and> perRoom res = [])"
proof (cases "rows = []")
  case True
  then show ?thesis by (simp add: assignRooms_def)
next
  case False
  from assignRooms_nonempty[OF assms False, of zc tz] obtain rows' where
    res: "assignRooms zc rows N tz =
            Inr \<lparr>perNurse = map (assignRooms_nurseRow zc tz rows') [0..<N], perRoom = rows'\<rparr>"
    by blast
  have "map nurse_id (map (assignRooms_nurseRow zc tz rows') [0..<N]) = map Suc [0..<N]"
    by (simp add: comp_def nurseRow_fields del: map_Suc_upt)
  moreover have "\<forall>n \<in> set (map (assignRooms_nurseRow zc tz rows') [0..<N]).
      n_rooms n = 0 \<longrightarrow> oldest_rank_received n = None \<and> youngest_rank_received n = None"
    using nurseRow_no_rooms by auto
  ultimately show ?thesis using res False by simp
qed

text \<open>
  One room and 2 nurses: the per-nurse table has the rows of nurse 1 and of nurse 2.
\<close>

theorem assignRooms_perNurse_rows_witness:
  "distinct (map room [makeRow ''1'' 8 0 noFlags]) \<and> (1::nat) \<le> 2 \<and>
   (\<exists>res. assignRooms ownZoneClock [makeRow ''1'' 8 0 noFlags] 2 TZ = Inr res \<and>
      length (perNurse res) = 2 \<and> map nurse_id (perNurse res) = [1, 2])"
proof -
  have d: "distinct (map room [makeRow ''1'' 8 0 noFlags])" by simp
  from assignRooms_perNurse_rows[OF d, of 2 ownZoneClock TZ] d show ?thesis
    by (auto simp: upt_rec)
qed

text \<open>
  The empty list of rooms with one nurse: the per-nurse table is empty, so it has no row for
  nurse 1.
\<close>

theorem assignRooms_empty_counterexample:
  "assignRooms ownZoneClock [] 1 TZ = Inr \<lparr>perNurse = [], perRoom = []\<rparr> \<and>
   length (perNurse \<lparr>perNurse = [], perRoom = []\<rparr>) \<noteq> 1"
  by (simp add: assignRooms_def)

text \<open>
  C6: the round-robin step fails, with the round-robin error, exactly when no nurse has remaining
  capacity; the scored step fails, with the scoring error, exactly when the room is not yet
  assigned and no nurse has remaining capacity; and for rooms with distinct ids and at least one
  nurse \<open>assignRooms\<close> returns a result, so neither error is raised.
\<close>

theorem capacity_exhausted_unreachable:
  "(assignRoundRobin_room aRoom s = Inl NoRoundRobinCapacity \<longleftrightarrow>
      \<not> (\<exists>n \<in> set (state s). 0 < remaining n)) \<and>
   (\<forall>e. assignRoundRobin_room aRoom s = Inl e \<longrightarrow> e = NoRoundRobinCapacity) \<and>
   (assignWithScoring caps cm aRoom s = Inl NoFeasibleNurseCandidates \<longleftrightarrow>
      assignment s (room aRoom) = None \<and> \<not> (\<exists>n \<in> set (state s). 0 < remaining n)) \<and>
   (\<forall>e. assignWithScoring caps cm aRoom s = Inl e \<longrightarrow> e = NoFeasibleNurseCandidates) \<and>
   (distinct (map room rows) \<and> 1 \<le> N \<longrightarrow> (\<exists>res. assignRooms zc rows N tz = Inr res))"
proof (intro conjI)
  show "assignRoundRobin_room aRoom s = Inl NoRoundRobinCapacity \<longleftrightarrow>
          \<not> (\<exists>n \<in> set (state s). 0 < remaining n)"
    using assignRoundRobin_room_Inl_iff[of aRoom s] assignRoundRobin_room_Inl_error[of aRoom s]
    by auto
  show "\<forall>e. assignRoundRobin_room aRoom s = Inl e \<longrightarrow> e = NoRoundRobinCapacity"
    using assignRoundRobin_room_Inl_error by blast
  have sc: "\<And>e. assignWithScoring caps cm aRoom s = Inl e \<longleftrightarrow>
              assignment s (room aRoom) = None \<and> pickNurse aRoom (state s) caps cm = Inl e"
    by (auto simp: assignWithScoring_def split: sum.splits)
  show "assignWithScoring caps cm aRoom s = Inl NoFeasibleNurseCandidates \<longleftrightarrow>
          assignment s (room aRoom) = None \<and> \<not> (\<exists>n \<in> set (state s). 0 < remaining n)"
    using pickNurse_Inl_iff[of aRoom "state s" caps cm] pickNurse_Inl_error[of aRoom "state s" caps cm]
    unfolding sc by auto
  show "\<forall>e. assignWithScoring caps cm aRoom s = Inl e \<longrightarrow> e = NoFeasibleNurseCandidates"
    using pickNurse_Inl_error unfolding sc by blast
  show "distinct (map room rows) \<and> 1 \<le> N \<longrightarrow> (\<exists>res. assignRooms zc rows N tz = Inr res)"
  proof (intro impI, elim conjE)
    assume a: "distinct (map room rows)" "1 \<le> N"
    show "\<exists>res. assignRooms zc rows N tz = Inr res"
    proof (cases "rows = []")
      case True
      then show ?thesis by (simp add: assignRooms_def)
    next
      case False
      from assignRooms_nonempty[OF a False, of zc tz] show ?thesis by blast
    qed
  qed
qed

text \<open>
  A single nurse without remaining capacity makes both steps fail with their errors; the four
  rooms of the third test with 2 nurses give a result.
\<close>

theorem capacity_exhausted_unreachable_witness:
  "assignRoundRobin_room (assignRooms_derive (makeRow ''3'' 8 0 noFlags))
     \<lparr>state = [spentNurse], assignment = Map.empty, roundRobinIndex = 0\<rparr> = Inl NoRoundRobinCapacity \<and>
   assignWithScoring [] Map.empty (assignRooms_derive (makeRow ''3'' 8 0 noFlags))
     \<lparr>state = [spentNurse], assignment = Map.empty, roundRobinIndex = 0\<rparr> = Inl NoFeasibleNurseCandidates \<and>
   distinct (map room rows_deterministic) \<and> (1::nat) \<le> 2 \<and>
   (\<exists>res. assignRooms ownZoneClock rows_deterministic 2 TZ = Inr res)"
proof -
  have d: "distinct (map room rows_deterministic)"
    by (simp add: rows_deterministic_def makeRow_def)
  from capacity_exhausted_unreachable[of "assignRooms_derive (makeRow ''3'' 8 0 noFlags)"
      "\<lparr>state = [spentNurse], assignment = Map.empty, roundRobinIndex = 0\<rparr>"
      "[]" Map.empty rows_deterministic 2 ownZoneClock TZ] d
  show ?thesis by (simp add: spentNurse_def)
qed

text \<open>
  C10: every state that \<open>assignRoomsToState\<close> returns from the planned capacities is a state of
  the run, and in every state of the run each nurse satisfies
  \<open>remaining + nAssigned = capacity\<close> with \<open>0 \<le> remaining\<close> and \<open>nAssigned \<le> capacity\<close>;
  every assignment made from such a state (a round-robin one, or a scored one of a room not yet
  assigned) chooses a nurse whose remaining capacity is positive, records the room for it,
  lowers its remaining capacity by exactly one and raises its count by exactly one, leaves the
  other nurses as they are, and keeps the equation.
\<close>

theorem nurse_books_balanced:
  "(\<forall>rooms s. assignRoomsToState_run rooms (buildInitialState (computeCapacities R N))
                 (computeCapacities R N) = Inr s \<longrightarrow> reachable (computeCapacities R N) s) \<and>
   (\<forall>s. reachable (computeCapacities R N) s \<longrightarrow>
      booksBalanced (computeCapacities R N) (state s) \<and>
      (\<forall>aRoom s'.
         assignRoundRobin_room aRoom s = Inr s' \<or>
         assignment s (room aRoom) = None \<and>
           assignWithScoring (computeCapacities R N) (capacityMapOf (computeCapacities R N))
             aRoom s = Inr s' \<longrightarrow>
         (\<exists>i < length (state s).
            0 < remaining (state s ! i) \<and>
            assignment s' = (assignment s)(room aRoom \<mapsto> nurseId (state s ! i)) \<and>
            remaining (state s' ! i) = remaining (state s ! i) - 1 \<and>
            nAssigned (state s' ! i) = nAssigned (state s ! i) + 1 \<and>
            (\<forall>j < length (state s). j \<noteq> i \<longrightarrow> state s' ! j = state s ! j) \<and>
            booksBalanced (computeCapacities R N) (state s'))))"
proof (intro conjI allI impI)
  fix rooms s
  assume "assignRoomsToState_run rooms (buildInitialState (computeCapacities R N))
            (computeCapacities R N) = Inr s"
  then show "reachable (computeCapacities R N) s" by (rule run_reachable)
next
  fix s assume r: "reachable (computeCapacities R N) s"
  show "booksBalanced (computeCapacities R N) (state s)"
    by (rule reachable_booksBalanced[OF computeCapacities_wellformed r])
next
  fix s aRoom s'
  assume r: "reachable (computeCapacities R N) s"
    and step: "assignRoundRobin_room aRoom s = Inr s' \<or>
         assignment s (room aRoom) = None \<and>
           assignWithScoring (computeCapacities R N) (capacityMapOf (computeCapacities R N))
             aRoom s = Inr s'"
  have b: "booksBalanced (computeCapacities R N) (state s)"
    by (rule reachable_booksBalanced[OF computeCapacities_wellformed r])
  from step obtain c where
    "c \<in> set (state s)" "0 < remaining c"
    "state s' = updateNurseState (nurseId c) aRoom (state s)"
    "assignment s' = (assignment s)(room aRoom \<mapsto> nurseId c)"
    using assignRoundRobin_room_Inr[of aRoom s s']
      assignWithScoring_Inr[of "computeCapacities R N" "capacityMapOf (computeCapacities R N)" aRoom s s']
    by blast
  from booksBalanced_step[OF b computeCapacities_wellformed(1) this]
  show "\<exists>i < length (state s).
            0 < remaining (state s ! i) \<and>
            assignment s' = (assignment s)(room aRoom \<mapsto> nurseId (state s ! i)) \<and>
            remaining (state s' ! i) = remaining (state s ! i) - 1 \<and>
            nAssigned (state s' ! i) = nAssigned (state s ! i) + 1 \<and>
            (\<forall>j < length (state s). j \<noteq> i \<longrightarrow> state s' ! j = state s ! j) \<and>
            booksBalanced (computeCapacities R N) (state s')" .
qed

lemma firstStep_eval:
  "assignRoundRobin_room (assignRooms_derive (makeRow ''3'' 8 0 noFlags))
     \<lparr>state = buildInitialState (computeCapacities 3 2), assignment = Map.empty,
      roundRobinIndex = 0\<rparr> = Inr firstStep"
  by (simp add: assignRoundRobin_room_def getRoundRobinOrder_def buildInitialState_def
      computeCapacities_def Let_def upt_rec firstStep_def assignRooms_derive_def makeRow_def
      noFlags_def roomWorkload_def makeEffectiveLoad_def roomGroupKey_def startsWith_def)

text \<open>
  The state after the first assignment of a run with 3 rooms and 2 nurses is a state of the run
  and keeps the equation.
\<close>

theorem nurse_books_balanced_witness:
  "reachable (computeCapacities 3 2) firstStep \<and>
   booksBalanced (computeCapacities 3 2) (state firstStep)"
proof -
  have "reachable (computeCapacities 3 2) firstStep"
    using reachable.roundRobin[OF reachable.start firstStep_eval] .
  with nurse_books_balanced[of 3 2] show ?thesis by blast
qed

lemma rows_bfi_cs_counts:
  "map_sum id (map n_bfi \<circ> perNurse) (assignRooms zc rows_bfi_cs 3 tz) = Inr [1, 1, 1] \<and>
   map_sum id (map n_cs \<circ> perNurse) (assignRooms zc rows_bfi_cs 3 tz) = Inr [1, 1, 1]"
proof -
  from rows_bfi_cs_map obtain m where
    m: "assignRoomsToState (map assignRooms_derive rows_bfi_cs)
         (buildInitialState (computeCapacities (length rows_bfi_cs) 3))
         (computeCapacities (length rows_bfi_cs) 3) = Inr m"
    and v: "map m [''19'', ''21'', ''23'', ''25'', ''27'', ''32-1''] =
         [Some 1, Some 2, Some 3, Some 1, Some 2, Some 3]"
    by (elim exE conjE)
  have dom: "set (map room rows_bfi_cs) \<subseteq> dom m"
    using v by (auto simp: rows_bfi_cs_def makeRow_def)
  have ne: "rows_bfi_cs \<noteq> []" by (simp add: rows_bfi_cs_def)
  from assignRooms_tag_counts[OF m dom ne, of zc tz] obtain res where
    res: "assignRooms zc rows_bfi_cs 3 tz = Inr res"
      "map n_bfi (perNurse res) =
         map (\<lambda>idx. length (filter (\<lambda>a. bfi a = Y \<and> m (room a) = Some (idx + 1))
                              rows_bfi_cs)) [0..<3]"
      "map n_cs (perNurse res) =
         map (\<lambda>idx. length (filter (\<lambda>a. cs a = Y \<and> m (room a) = Some (idx + 1))
                              rows_bfi_cs)) [0..<3]"
    by (elim exE conjE)
  have "map (\<lambda>idx. length (filter (\<lambda>a. bfi a = Y \<and> m (room a) = Some (idx + 1))
                              rows_bfi_cs)) [0..<3] = [1, 1, 1]"
    using v by (simp add: rows_bfi_cs_def makeRow_def noFlags_def upt_rec)
  moreover have "map (\<lambda>idx. length (filter (\<lambda>a. cs a = Y \<and> m (room a) = Some (idx + 1))
                              rows_bfi_cs)) [0..<3] = [1, 1, 1]"
    using v by (simp add: rows_bfi_cs_def makeRow_def noFlags_def upt_rec)
  ultimately show ?thesis using res by simp
qed

lemma rows_tight_counts:
  "map_sum id (map n_bfi \<circ> perNurse) (assignRooms zc rows_tight 2 tz) = Inr [2, 0]"
proof -
  from rows_tight_map obtain m where
    m: "assignRoomsToState (map assignRooms_derive rows_tight)
         (buildInitialState (computeCapacities (length rows_tight) 2))
         (computeCapacities (length rows_tight) 2) = Inr m"
    and v: "map m [''1'', ''3'', ''5''] = [Some 1, Some 2, Some 1]"
    by (elim exE conjE)
  have dom: "set (map room rows_tight) \<subseteq> dom m"
    using v by (auto simp: rows_tight_def makeRow_def)
  have ne: "rows_tight \<noteq> []" by (simp add: rows_tight_def)
  from assignRooms_tag_counts[OF m dom ne, of zc tz] obtain res where
    res: "assignRooms zc rows_tight 2 tz = Inr res"
      "map n_bfi (perNurse res) =
         map (\<lambda>idx. length (filter (\<lambda>a. bfi a = Y \<and> m (room a) = Some (idx + 1))
                              rows_tight)) [0..<2]"
    by (elim exE conjE)
  have "map (\<lambda>idx. length (filter (\<lambda>a. bfi a = Y \<and> m (room a) = Some (idx + 1))
                              rows_tight)) [0..<2] = [2, 0]"
    using v by (simp add: rows_tight_def makeRow_def noFlags_def upt_rec)
  with res show ?thesis by simp
qed

text \<open>
  C7: for the six discharge rooms 1, 3, 5, 7, 9, 11 at ascending times and the two untagged
  rooms, with 3 nurses, the discharge phase assigns the six rooms to the nurses 1, 2, 3, 1, 2, 3
  and leaves the two other rooms unassigned, and in the result every nurse has exactly 2
  discharge rooms.
\<close>

theorem discharge_round_robin_even:
  "map_sum id (\<lambda>s. map (assignment s) [''1'', ''3'', ''5'', ''7'', ''9'', ''11'', ''14-1'', ''14-2''])
     (assignRoundRobin (filter (\<lambda>r. discharge r = Y) (map assignRooms_derive rows_discharges))
        oldest
        \<lparr>state = buildInitialState (computeCapacities (length rows_discharges) 3),
         assignment = Map.empty, roundRobinIndex = 0\<rparr>) =
     Inr [Some 1, Some 2, Some 3, Some 1, Some 2, Some 3, None, None] \<and>
   map_sum id (map n_discharge \<circ> perNurse) (assignRooms zc rows_discharges 3 tz) = Inr [2, 2, 2]"
  using rows_discharges_phase1 rows_discharges_counts by (intro conjI)

text \<open>
  The scenario with the clock of the test zone.
\<close>

theorem discharge_round_robin_even_witness:
  "map_sum id (map n_discharge \<circ> perNurse) (assignRooms ownZoneClock rows_discharges 3 TZ) =
     Inr [2, 2, 2]"
  using discharge_round_robin_even[of ownZoneClock TZ] by (elim conjE)

text \<open>
  C3, as the code has it: in every state of a run over rooms with distinct ids a nurse has the
  \<^verbatim>\<open>bfi\<close> flag exactly when it holds a \<^verbatim>\<open>bfi\<close> room, and the \<^verbatim>\<open>cs\<close> flag exactly when it holds a
  \<^verbatim>\<open>cs\<close> room. A round-robin assignment from such a state takes, in the order of the rotation,
  the first nurse with remaining capacity that would duplicate no tag of the room; so the room
  goes to a nurse that holds no such room whenever some nurse with remaining capacity would
  duplicate no tag. Only when every nurse with remaining capacity would duplicate a tag is the
  first of them, in the order of the rotation, taken. With three \<^verbatim>\<open>over_24\<close>+\<^verbatim>\<open>bfi\<close> rooms,
  three \<^verbatim>\<open>over_24\<close>+\<^verbatim>\<open>cs\<close> rooms and 3 nurses every nurse ends with one \<^verbatim>\<open>bfi\<close> room and
  one \<^verbatim>\<open>cs\<close> room.
\<close>

theorem soft_duplicate_avoidance:
  "(\<forall>rooms s.
      distinct (map room rooms) \<and>
      assignRoomsToState_run rooms (buildInitialState (computeCapacities R N))
        (computeCapacities R N) = Inr s \<longrightarrow>
      runState rooms (computeCapacities R N) s) \<and>
   (\<forall>rooms s.
      distinct (map room rooms) \<and> runState rooms (computeCapacities R N) s \<longrightarrow>
      (\<forall>n \<in> set (state s). (hasBfi n \<longleftrightarrow> holdsBfi rooms s n) \<and>
                            (hasCs n \<longleftrightarrow> holdsCs rooms s n)) \<and>
      (\<forall>aRoom s'.
         assignRoundRobin_room aRoom s = Inr s' \<longrightarrow>
         (\<exists>c rest.
            (filter (\<lambda>n. \<not> wouldDuplicate rooms s aRoom n)
               (filter (\<lambda>n. 0 < remaining n) (rotate (roundRobinIndex s) (state s))) = c # rest \<or>
             filter (\<lambda>n. \<not> wouldDuplicate rooms s aRoom n)
               (filter (\<lambda>n. 0 < remaining n) (rotate (roundRobinIndex s) (state s))) = [] \<and>
             filter (\<lambda>n. 0 < remaining n) (rotate (roundRobinIndex s) (state s)) = c # rest) \<and>
            c \<in> set (state s) \<and> 0 < remaining c \<and>
            ((\<exists>n \<in> set (state s). 0 < remaining n \<and> \<not> wouldDuplicate rooms s aRoom n) \<longrightarrow>
               \<not> wouldDuplicate rooms s aRoom c) \<and>
            assignment s' = (assignment s)(room aRoom \<mapsto> nurseId c) \<and>
            state s' = updateNurseState (nurseId c) aRoom (state s)))) \<and>
   map_sum id (map n_bfi \<circ> perNurse) (assignRooms zc rows_bfi_cs 3 tz) = Inr [1, 1, 1] \<and>
   map_sum id (map n_cs \<circ> perNurse) (assignRooms zc rows_bfi_cs 3 tz) = Inr [1, 1, 1]"
proof (intro conjI allI impI)
  fix rooms s
  assume "distinct (map room rooms) \<and>
      assignRoomsToState_run rooms (buildInitialState (computeCapacities R N))
        (computeCapacities R N) = Inr s"
  then show "runState rooms (computeCapacities R N) s" using run_runState by blast
next
  fix rooms s
  assume a: "distinct (map room rooms) \<and> runState rooms (computeCapacities R N) s"
  then show "\<forall>n \<in> set (state s). (hasBfi n \<longleftrightarrow> holdsBfi rooms s n) \<and>
                                 (hasCs n \<longleftrightarrow> holdsCs rooms s n)"
    using runState_flags[OF _ computeCapacities_wellformed(1)] by blast
next
  fix rooms s aRoom s'
  assume a: "distinct (map room rooms) \<and> runState rooms (computeCapacities R N) s"
    and step: "assignRoundRobin_room aRoom s = Inr s'"
  from a have link: "\<forall>n \<in> set (state s). (hasBfi n \<longleftrightarrow> holdsBfi rooms s n) \<and>
                                      (hasCs n \<longleftrightarrow> holdsCs rooms s n)"
    using runState_flags[OF _ computeCapacities_wellformed(1)] by blast
  show "\<exists>c rest.
            (filter (\<lambda>n. \<not> wouldDuplicate rooms s aRoom n)
               (filter (\<lambda>n. 0 < remaining n) (rotate (roundRobinIndex s) (state s))) = c # rest \<or>
             filter (\<lambda>n. \<not> wouldDuplicate rooms s aRoom n)
               (filter (\<lambda>n. 0 < remaining n) (rotate (roundRobinIndex s) (state s))) = [] \<and>
             filter (\<lambda>n. 0 < remaining n) (rotate (roundRobinIndex s) (state s)) = c # rest) \<and>
            c \<in> set (state s) \<and> 0 < remaining c \<and>
            ((\<exists>n \<in> set (state s). 0 < remaining n \<and> \<not> wouldDuplicate rooms s aRoom n) \<longrightarrow>
               \<not> wouldDuplicate rooms s aRoom c) \<and>
            assignment s' = (assignment s)(room aRoom \<mapsto> nurseId c) \<and>
            state s' = updateNurseState (nurseId c) aRoom (state s)"
    by (rule assignRoundRobin_room_choice[OF link step])
next
  show "map_sum id (map n_bfi \<circ> perNurse) (assignRooms zc rows_bfi_cs 3 tz) = Inr [1, 1, 1]"
    using rows_bfi_cs_counts[of zc tz] by (elim conjE)
  show "map_sum id (map n_cs \<circ> perNurse) (assignRooms zc rows_bfi_cs 3 tz) = Inr [1, 1, 1]"
    using rows_bfi_cs_counts[of zc tz] by (elim conjE)
qed

text \<open>
  After rooms 1 (\<^verbatim>\<open>bfi\<close>) and 3 of the four rooms the rotation starts at nurse 1, which has the
  \<^verbatim>\<open>bfi\<close> flag and holds the \<^verbatim>\<open>bfi\<close> room 1; nurse 2 holds none. Both have remaining capacity,
  and the \<^verbatim>\<open>bfi\<close> room 5 goes to nurse 2.
\<close>

theorem soft_duplicate_avoidance_witness:
  "distinct (map room (map assignRooms_derive rows_four)) \<and>
   runState (map assignRooms_derive rows_four) (computeCapacities 4 2) twoAssigned \<and>
   hasBfi (state twoAssigned ! 0) \<and>
   holdsBfi (map assignRooms_derive rows_four) twoAssigned (state twoAssigned ! 0) \<and>
   \<not> holdsBfi (map assignRooms_derive rows_four) twoAssigned (state twoAssigned ! 1) \<and>
   (\<exists>s' c. assignRoundRobin_room
              (assignRooms_derive (makeRow ''5'' 10 0 (noFlags\<lparr>discharge := Y, bfi := Y\<rparr>)))
              twoAssigned = Inr s' \<and>
           c \<in> set (state twoAssigned) \<and> nurseId c = 2 \<and>
           \<not> wouldDuplicate (map assignRooms_derive rows_four) twoAssigned
               (assignRooms_derive (makeRow ''5'' 10 0 (noFlags\<lparr>discharge := Y, bfi := Y\<rparr>))) c \<and>
           assignment s' ''5'' = Some 2)"
proof -
  let ?D = "map assignRooms_derive rows_four"
  let ?r5 = "assignRooms_derive (makeRow ''5'' 10 0 (noFlags\<lparr>discharge := Y, bfi := Y\<rparr>))"
  have d: "distinct (map room ?D)"
    by (simp add: rows_four_def assignRooms_derive_def makeRow_def Let_def)
  note run = twoAssigned_runState
  note main = soft_duplicate_avoidance[of 4 2 ownZoneClock TZ]
  from main d run have link: "\<forall>n \<in> set (state twoAssigned).
      (hasBfi n \<longleftrightarrow> holdsBfi ?D twoAssigned n) \<and> (hasCs n \<longleftrightarrow> holdsCs ?D twoAssigned n)"
    by blast
  have f0: "hasBfi (state twoAssigned ! 0)" and f1: "\<not> hasBfi (state twoAssigned ! 1)"
    and f1c: "\<not> hasCs (state twoAssigned ! 1)"
    and r1: "0 < remaining (state twoAssigned ! 1)"
    and m0: "state twoAssigned ! 0 \<in> set (state twoAssigned)"
    and m1: "state twoAssigned ! 1 \<in> set (state twoAssigned)"
    by (simp_all add: twoAssigned_def)
  from link f0 f1 f1c m0 m1 have h0: "holdsBfi ?D twoAssigned (state twoAssigned ! 0)"
    and h1: "\<not> holdsBfi ?D twoAssigned (state twoAssigned ! 1)"
    and h1c: "\<not> holdsCs ?D twoAssigned (state twoAssigned ! 1)" by blast+
  from threeAssigned_step obtain s' where
    s': "assignRoundRobin_room ?r5 twoAssigned = Inr s'" and a5: "assignment s' ''5'' = Some 2"
    by (cases "assignRoundRobin_room ?r5 twoAssigned") auto
  have free: "\<exists>n \<in> set (state twoAssigned). 0 < remaining n \<and>
                \<not> wouldDuplicate ?D twoAssigned ?r5 n"
    using m1 r1 h1 h1c by (auto simp: wouldDuplicate_def)
  from main d run s' obtain c where
    c: "c \<in> set (state twoAssigned)"
       "(\<exists>n \<in> set (state twoAssigned). 0 < remaining n \<and>
            \<not> wouldDuplicate ?D twoAssigned ?r5 n) \<longrightarrow> \<not> wouldDuplicate ?D twoAssigned ?r5 c"
       "assignment s' = (assignment twoAssigned)(room ?r5 \<mapsto> nurseId c)"
    by blast
  have "room ?r5 = ''5''" by (simp add: assignRooms_derive_def makeRow_def Let_def)
  with c(3) a5 have id: "nurseId c = 2" by simp
  from c(2) free have nd: "\<not> wouldDuplicate ?D twoAssigned ?r5 c" by blast
  from d run f0 h0 h1 s' c(1) id nd a5 show ?thesis by blast
qed

text \<open>
  Two \<^verbatim>\<open>bfi\<close> rooms among three discharge rooms, 2 nurses with capacities 2 and 1: room 1
  goes to nurse 1, room 3 to nurse 2, which is then full, and room 5 to nurse 1, which ends with
  both \<^verbatim>\<open>bfi\<close> rooms although there are as many nurses as \<^verbatim>\<open>bfi\<close> rooms.
\<close>

theorem soft_duplicate_counterexample:
  "distinct (map room rows_tight) \<and> length (filter (\<lambda>r. bfi r = Y) rows_tight) \<le> 2 \<and>
   map_sum id (map n_bfi \<circ> perNurse) (assignRooms ownZoneClock rows_tight 2 TZ) = Inr [2, 0]"
  using rows_tight_counts[of ownZoneClock TZ]
  by (simp add: rows_tight_def makeRow_def noFlags_def)

section \<open>The time zone\<close>

lemma buildRoomLabel_clock:
  "buildRoomLabel (\<lambda>dt z. zc dt tz) row tz' = buildRoomLabel zc row tz"
  by (simp add: buildRoomLabel_def formatClock_def)

lemma nurseRow_clock:
  "assignRooms_nurseRow (\<lambda>dt z. zc dt tz) tz' rows idx = assignRooms_nurseRow zc tz rows idx"
  by (simp add: assignRooms_nurseRow_def buildRoomLabel_clock)

lemma nurseRow_without_label:
  "(assignRooms_nurseRow zc tz1 rows idx)\<lparr>assigned_rooms := []\<rparr> =
   (assignRooms_nurseRow zc tz2 rows idx)\<lparr>assigned_rooms := []\<rparr>"
  by (simp add: assignRooms_nurseRow_def Let_def)

text \<open>
  C9: two runs on the same rows and nurse count with time zones \<open>tz1\<close> and \<open>tz2\<close> fail alike or
  return the same per-room table (room, time, ranks, nurse and tags of every row, in the same
  order) and per-nurse tables that are equal once the label text is blanked; the time zone
  reaches the result only as the argument of the clock formatting inside the labels.
\<close>

theorem timezone_only_in_labels:
  "map_sum id perRoom (assignRooms zc rows N tz1) =
     map_sum id perRoom (assignRooms zc rows N tz2) \<and>
   map_sum id (map (assigned_rooms_update (\<lambda>_. [])) \<circ> perNurse) (assignRooms zc rows N tz1) =
     map_sum id (map (assigned_rooms_update (\<lambda>_. [])) \<circ> perNurse) (assignRooms zc rows N tz2) \<and>
   assignRooms zc rows N tz1 = assignRooms (\<lambda>dt z. zc dt tz1) rows N tz2"
proof (intro conjI)
  show "map_sum id perRoom (assignRooms zc rows N tz1) =
          map_sum id perRoom (assignRooms zc rows N tz2)"
    by (simp add: assignRooms_def Let_def split: sum.splits)
  show "map_sum id (map (assigned_rooms_update (\<lambda>_. [])) \<circ> perNurse) (assignRooms zc rows N tz1) =
     map_sum id (map (assigned_rooms_update (\<lambda>_. [])) \<circ> perNurse) (assignRooms zc rows N tz2)"
    using nurseRow_without_label[of zc tz1 _ _ tz2]
    by (simp add: assignRooms_def Let_def split: sum.splits)
  show "assignRooms zc rows N tz1 = assignRooms (\<lambda>dt z. zc dt tz1) rows N tz2"
    by (simp add: assignRooms_def Let_def nurseRow_clock split: sum.splits)
qed

text \<open>
  The rows of the third test with the zones America/Toronto and UTC.
\<close>

theorem timezone_only_in_labels_witness:
  "map_sum id perRoom (assignRooms ownZoneClock rows_deterministic 2 TZ) =
     map_sum id perRoom (assignRooms ownZoneClock rows_deterministic 2 ''UTC'')"
  using timezone_only_in_labels[of ownZoneClock rows_deterministic 2 TZ "''UTC''"]
  by (elim conjE)



lemma timeParsed_derive: "timeParsed (assignRooms_derive row) = timeParsed row"
  by (simp add: assignRooms_derive_def Let_def)

lemma millis_derived:
  "(\<lambda>a. toMillis (timeParsed a)) ` set (map assignRooms_derive rows) =
   (\<lambda>a. toMillis (timeParsed a)) ` set rows"
  by (auto simp: timeParsed_derive image_iff)

lemma perRoom_room_time:
  assumes dom: "set (map room derived) \<subseteq> dom m"
  shows "map (\<lambda>r. (RoomAssignmentRow.room r, time r))
           (List.map_filter (assignRooms_roomRow m rk tot) derived) =
         map (\<lambda>a. (room a, timeParsed a)) derived"
proof -
  have all: "\<forall>a \<in> set derived. assignRooms_roomRow m rk tot a \<noteq> None"
    using dom by (auto simp: assignRooms_roomRow_def Let_def split: option.splits)
  have r: "\<And>a. a \<in> set derived \<Longrightarrow>
             RoomAssignmentRow.room (the (assignRooms_roomRow m rk tot a)) = room a \<and>
             time (the (assignRooms_roomRow m rk tot a)) = timeParsed a"
  proof -
    fix a assume "a \<in> set derived"
    with dom obtain nurse where n: "m (room a) = Some nurse" by auto
    from assignRooms_roomRow_Some[of m a nurse rk tot] n
    show "RoomAssignmentRow.room (the (assignRooms_roomRow m rk tot a)) = room a \<and>
          time (the (assignRooms_roomRow m rk tot a)) = timeParsed a"
      by auto
  qed
  show ?thesis
    unfolding map_filter_all_Some[OF all] map_map comp_def
    by (rule map_cong[OF refl]) (use r in simp)
qed

text \<open>
  C8: for a non-empty list of rooms with distinct ids (and at least one nurse, so that the run
  returns) the per-room table has exactly one row for every input room, with the room's id
  and time stamp, and the oldest rank of every per-room row is the number of distinct time
  stamps of the input that are not later than its own: it is at least 1, two rows have the same oldest rank
  exactly when they have the same time stamp, and oldest rank plus youngest rank is the number
  of rooms plus 1. Along the rooms sorted by ascending time stamp with ties broken by room id
  (a permutation of the rooms) the rank map starts at 1 and grows by 1 exactly where the time stamp differs from the one
  before.
\<close>

theorem dense_rank_correct:
  assumes d: "distinct (map room rows)" and N: "1 \<le> N" and ne: "rows \<noteq> []"
  shows "\<exists>res. assignRooms zc rows N tz = Inr res \<and>
     mset (map (\<lambda>r. (RoomAssignmentRow.room r, time r)) (perRoom res)) =
       mset (map (\<lambda>a. (room a, timeParsed a)) rows) \<and>
     length (perRoom res) = length rows \<and>
     (\<forall>row \<in> set (perRoom res).
        denseRankOldest (map assignRooms_derive rows) (RoomAssignmentRow.room row) =
          Some (rank_oldest row) \<and>
        rank_oldest row =
          int (card {m \<in> (\<lambda>a. toMillis (timeParsed a)) ` set rows. m \<le> toMillis (time row)}) \<and>
        1 \<le> rank_oldest row \<and>
        rank_oldest row + rank_youngest row = int (length rows) + 1 \<and>
        (\<forall>row' \<in> set (perRoom res).
           rank_oldest row = rank_oldest row' \<longleftrightarrow>
             toMillis (time row) = toMillis (time row'))) \<and>
     mset (sortBy denseRankOldest_compare (map assignRooms_derive rows)) =
       mset (map assignRooms_derive rows) \<and>
     sorted_wrt
       (\<lambda>a b. toMillis (timeParsed a) < toMillis (timeParsed b) \<or>
              toMillis (timeParsed a) = toMillis (timeParsed b) \<and>
                localeCompare (room a) (room b) \<le> 0)
       (sortBy denseRankOldest_compare (map assignRooms_derive rows)) \<and>
     denseRankOldest (map assignRooms_derive rows)
       (room (sortBy denseRankOldest_compare (map assignRooms_derive rows) ! 0)) = Some 1 \<and>
     (\<forall>i. i + 1 < length rows \<longrightarrow>
        (\<exists>k. denseRankOldest (map assignRooms_derive rows)
                (room (sortBy denseRankOldest_compare (map assignRooms_derive rows) ! i)) = Some k \<and>
             denseRankOldest (map assignRooms_derive rows)
                (room (sortBy denseRankOldest_compare (map assignRooms_derive rows) ! (i + 1))) =
               Some (k + (if toMillis (timeParsed
                                 (sortBy denseRankOldest_compare (map assignRooms_derive rows) ! (i + 1)))
                             \<noteq> toMillis (timeParsed
                                 (sortBy denseRankOldest_compare (map assignRooms_derive rows) ! i))
                          then 1 else 0))))"
proof -
  let ?M = "\<lambda>a. toMillis (timeParsed a)"
  let ?derived = "map assignRooms_derive rows"
  let ?ranked = "sortBy denseRankOldest_compare ?derived"
  let ?rk = "denseRankOldest ?derived"
  let ?tot = "int (length ?derived)"
  let ?S = "?M ` set rows"
  have d': "distinct (map room ?derived)" using d by (simp only: map_room_derive)
  have rank: "\<And>a. a \<in> set ?derived \<Longrightarrow> ?rk (room a) = Some (int (card {m \<in> ?S. m \<le> ?M a}))"
    using denseRankOldest_rank[OF d'] by (simp only: millis_derived)
  from assignRoomsToState_ok[OF d N] obtain m where
    m: "assignRoomsToState ?derived (buildInitialState (computeCapacities (length rows) N))
          (computeCapacities (length rows) N) = Inr m"
    and domm: "dom m = set (map room rows)" by blast
  let ?rows' = "sortBy assignRooms_compare (List.map_filter (assignRooms_roomRow m ?rk ?tot) ?derived)"
  let ?res = "\<lparr>perNurse = map (assignRooms_nurseRow zc tz ?rows') [0..<N], perRoom = ?rows'\<rparr>"
  have res: "assignRooms zc rows N tz = Inr ?res"
    using ne m by (simp add: assignRooms_def Let_def)
  have row: "\<exists>a \<in> set ?derived. time row = timeParsed a \<and> RoomAssignmentRow.room row = room a \<and>
               rank_oldest row = int (card {m \<in> ?S. m \<le> ?M a}) \<and>
               rank_youngest row = ?tot - rank_oldest row + 1"
    if "row \<in> set ?rows'" for row
  proof -
    from that have "row \<in> set (List.map_filter (assignRooms_roomRow m ?rk ?tot) ?derived)"
      by (simp only: set_sortBy)
    from set_map_filter_roomRow[OF this] obtain a where
      a: "a \<in> set ?derived" "assignRooms_roomRow m ?rk ?tot a = Some row" by blast
    from roomRow_ranks[OF a(2)] rank[OF a(1)] a(1) show ?thesis by auto
  qed
  have fin: "finite ?S" by simp
  have rows_ok: "\<forall>row \<in> set ?rows'.
        ?rk (RoomAssignmentRow.room row) = Some (rank_oldest row) \<and>
        rank_oldest row = int (card {m \<in> ?S. m \<le> toMillis (time row)}) \<and>
        1 \<le> rank_oldest row \<and>
        rank_oldest row + rank_youngest row = int (length rows) + 1 \<and>
        (\<forall>row' \<in> set ?rows'.
           rank_oldest row = rank_oldest row' \<longleftrightarrow> toMillis (time row) = toMillis (time row'))"
  proof (intro ballI conjI)
    fix row assume r: "row \<in> set ?rows'"
    from row[OF r] obtain a where a: "a \<in> set ?derived" "time row = timeParsed a"
      "RoomAssignmentRow.room row = room a"
      "rank_oldest row = int (card {m \<in> ?S. m \<le> ?M a})"
      "rank_youngest row = ?tot - rank_oldest row + 1" by blast
    have inS: "?M a \<in> ?S" using a(1) by (simp only: millis_derived[symmetric]) simp
    show "?rk (RoomAssignmentRow.room row) = Some (rank_oldest row)"
      using rank[OF a(1)] a by simp
    show "rank_oldest row = int (card {m \<in> ?S. m \<le> toMillis (time row)})"
      using a by simp
    have "{m \<in> ?S. m \<le> ?M a} \<noteq> {}" using inS by blast
    then have "0 < card {m \<in> ?S. m \<le> ?M a}" using fin by (simp add: card_gt_0_iff)
    then show "1 \<le> rank_oldest row" using a(4) by simp
    show "rank_oldest row + rank_youngest row = int (length rows) + 1"
      using a(5) by simp
    fix row' assume r': "row' \<in> set ?rows'"
    from row[OF r'] obtain b where b: "b \<in> set ?derived" "time row' = timeParsed b"
      "rank_oldest row' = int (card {m \<in> ?S. m \<le> ?M b})" by blast
    have inS': "?M b \<in> ?S" using b(1) by (simp only: millis_derived[symmetric]) simp
    show "rank_oldest row = rank_oldest row' \<longleftrightarrow> toMillis (time row) = toMillis (time row')"
      using card_le_eq_iff[OF fin inS inS'] a(2,4) b(2,3) by simp
  qed
  have sorted: "sorted_wrt (\<lambda>a b. ?M a \<le> ?M b) ?ranked" by (rule denseRankOldest_sorted)
  have ranked_in: "\<And>i. i < length rows \<Longrightarrow> ?ranked ! i \<in> set ?derived"
    by (metis length_map length_sortBy nth_mem set_sortBy)
  have Sr: "?M ` set ?ranked = ?S" by (simp only: set_sortBy millis_derived)
  have first: "?rk (room (?ranked ! 0)) = Some 1"
  proof -
    have "?ranked \<noteq> []" using ne by (simp add: sortBy_Nil_iff)
    from card_le_first[OF sorted this] have "card {m \<in> ?S. m \<le> ?M (?ranked ! 0)} = 1"
      by (simp only: Sr)
    moreover have "?ranked ! 0 \<in> set ?derived" using ranked_in[of 0] ne by simp
    ultimately show ?thesis using rank by simp
  qed
  have nxt: "\<forall>i. i + 1 < length rows \<longrightarrow>
        (\<exists>k. ?rk (room (?ranked ! i)) = Some k \<and>
             ?rk (room (?ranked ! (i + 1))) =
               Some (k + (if ?M (?ranked ! (i + 1)) \<noteq> ?M (?ranked ! i) then 1 else 0)))"
  proof (intro allI impI)
    fix i assume i: "i + 1 < length rows"
    then have il: "i + 1 < length ?ranked" by (simp add: length_sortBy)
    from card_le_next[OF sorted il]
    have c: "card {m \<in> ?S. m \<le> ?M (?ranked ! (i + 1))} =
             card {m \<in> ?S. m \<le> ?M (?ranked ! i)} +
               (if ?M (?ranked ! (i + 1)) \<noteq> ?M (?ranked ! i) then 1 else 0)"
      by (simp only: Sr)
    have "?rk (room (?ranked ! i)) = Some (int (card {m \<in> ?S. m \<le> ?M (?ranked ! i)}))"
      using rank[OF ranked_in[of i]] i by simp
    moreover have "?rk (room (?ranked ! (i + 1))) =
        Some (int (card {m \<in> ?S. m \<le> ?M (?ranked ! (i + 1))}))"
      using rank[OF ranked_in[of "i + 1"]] i by simp
    ultimately show "\<exists>k. ?rk (room (?ranked ! i)) = Some k \<and>
             ?rk (room (?ranked ! (i + 1))) =
               Some (k + (if ?M (?ranked ! (i + 1)) \<noteq> ?M (?ranked ! i) then 1 else 0))"
      using c by simp
  qed
  have full: "sorted_wrt (\<lambda>a b. ?M a < ?M b \<or> ?M a = ?M b \<and> localeCompare (room a) (room b) \<le> 0)
                ?ranked"
    using denseRankOldest_sorted_full[of ?derived] by (simp only: denseRankOldest_compare_le)
  have rows_ok': "\<forall>row \<in> set (perRoom ?res).
        ?rk (RoomAssignmentRow.room row) = Some (rank_oldest row) \<and>
        rank_oldest row = int (card {m \<in> ?S. m \<le> toMillis (time row)}) \<and>
        1 \<le> rank_oldest row \<and>
        rank_oldest row + rank_youngest row = int (length rows) + 1 \<and>
        (\<forall>row' \<in> set (perRoom ?res).
           rank_oldest row = rank_oldest row' \<longleftrightarrow> toMillis (time row) = toMillis (time row'))"
    using rows_ok by (simp only: AssignmentResult.select_convs)
  have sub: "set (map room ?derived) \<subseteq> dom m"
    unfolding map_room_derive domm by (rule subset_refl)
  have cover: "mset (map (\<lambda>r. (RoomAssignmentRow.room r, time r)) (perRoom ?res)) =
       mset (map (\<lambda>a. (room a, timeParsed a)) rows)"
  proof -
    have "map (\<lambda>r. (RoomAssignmentRow.room r, time r))
            (List.map_filter (assignRooms_roomRow m ?rk ?tot) ?derived) =
          map (\<lambda>a. (room a, timeParsed a)) ?derived"
      by (rule perRoom_room_time[OF sub])
    also have "\<dots> = map (\<lambda>a. (room a, timeParsed a)) rows"
      by (simp only: map_map comp_def room_derive timeParsed_derive)
    finally show ?thesis
      by (simp only: AssignmentResult.select_convs mset_map_sortBy)
  qed
  have "size (mset (map (\<lambda>r. (RoomAssignmentRow.room r, time r)) (perRoom ?res))) =
        size (mset (map (\<lambda>a. (room a, timeParsed a)) rows))"
    by (simp only: cover)
  then have len: "length (perRoom ?res) = length rows"
    by (simp only: size_mset length_map)
  have perm: "mset ?ranked = mset ?derived" by (rule mset_sortBy)
  from res cover len rows_ok' perm full first nxt show ?thesis
    by (intro exI[of _ ?res] conjI)
qed

text \<open>
  Two rooms with the same time stamp: the per-room table has two rows, both with oldest rank 1
  and youngest rank 2.
\<close>

theorem dense_rank_correct_witness:
  "distinct (map room rows_same_time) \<and> (1::nat) \<le> 1 \<and> rows_same_time \<noteq> [] \<and>
   map_sum id (map (\<lambda>r. (rank_oldest r, rank_youngest r)) \<circ> perRoom)
     (assignRooms ownZoneClock rows_same_time 1 TZ) = Inr [(1, 2), (1, 2)]"
proof -
  have d: "distinct (map room rows_same_time)" and ne: "rows_same_time \<noteq> []"
    by (simp_all add: rows_same_time_def makeRow_def)
  have S: "(\<lambda>a. toMillis (timeParsed a)) ` set rows_same_time = {1735736400000}"
    by (simp add: rows_same_time_def makeRow_def)
  have two: "length rows_same_time = 2" by (simp add: rows_same_time_def)
  from dense_rank_correct[OF d _ ne, of 1 ownZoneClock TZ] obtain res where
    res: "assignRooms ownZoneClock rows_same_time 1 TZ = Inr res"
    and len: "length (perRoom res) = length rows_same_time"
    and rows: "\<forall>row \<in> set (perRoom res).
        rank_oldest row = int (card {m \<in> {1735736400000}. m \<le> toMillis (time row)}) \<and>
        1 \<le> rank_oldest row \<and>
        rank_oldest row + rank_youngest row = int (length rows_same_time) + 1"
    unfolding S by auto
  have each: "rank_oldest row = 1 \<and> rank_youngest row = 2" if "row \<in> set (perRoom res)" for row
  proof -
    have "card {m \<in> {1735736400000::int}. m \<le> toMillis (time row)} \<le> card {1735736400000::int}"
      by (intro card_mono) auto
    with rows that have "rank_oldest row = 1" by fastforce
    then show ?thesis using rows that two by fastforce
  qed
  from len two obtain a b where ab: "perRoom res = [a, b]"
    by (cases "perRoom res"; cases "tl (perRoom res)") auto
  with each[of a] each[of b] have
    "map (\<lambda>r. (rank_oldest r, rank_youngest r)) (perRoom res) = [(1, 2), (1, 2)]" by simp
  with res d ne show ?thesis by simp
qed

end
